theory Spec2Isabelle
  imports Complex_Main "HOL-Library.Option_ord" "HOL-Library.Sublist"
begin

section \<open>Admin routes of the backend: data model\<close>

text \<open>
  The handlers of \<^verbatim>\<open>src/routes/admin.js\<close> run behind the \<^verbatim>\<open>protect\<close> and
  \<^verbatim>\<open>isAdmin\<close> middleware and talk to two collections, events and users, through the
  object-document mapper. A collection is the list of its documents in natural order.
  Object ids are compared for equality only and are written as their hexadecimal text.
  A string is the list of its bytes in UTF-8.
\<close>

type_synonym oid = string

text \<open>A rejected promise carries an error object; the handlers read its \<^verbatim>\<open>message\<close>.\<close>

datatype error = Error (message: string)

text \<open>
  The value of \<^verbatim>\<open>new Date(x)\<close>: an instant in milliseconds since the epoch, or an
  invalid date, whose time value is NaN.
\<close>

datatype date_value = InvalidDate | Instant int

text \<open>
  An event document. The type of the \<^verbatim>\<open>registrations\<close> key is a parameter: the stored
  document holds an array of registrations, \<^verbatim>\<open>GET /events\<close> overwrites the key with a
  number. \<open>None\<close> for the stored array stands for a document without the key.
\<close>

record 'r event_doc =
  ev_id :: oid
  title :: string
  description :: string
  date :: date_value
  time :: string
  venue :: string
  status :: string
  registrations :: 'r

text \<open>A registration refers to a user; \<open>details\<close> is its event-specific metadata.\<close>

record 'u registration =
  user :: 'u
  details :: string

type_synonym event = "oid registration list option event_doc"

text \<open>
  A user document. \<open>password = None\<close> is a document object without the password key,
  as \<^verbatim>\<open>select('-password')\<close> produces it.
\<close>

record user_doc =
  user_id :: oid
  name :: string
  email :: string
  registration_no :: string
  role :: string
  password :: "string option"
  branch :: string
  semester :: string
  mobile :: string
  createdAt :: int

text \<open>
  The projection \<^verbatim>\<open>'name email registration_no branch semester mobile role'\<close> that
  \<^verbatim>\<open>populate\<close> puts in place of a registration's user reference (the id always comes
  with it).
\<close>

record populated_user =
  p_id :: oid
  p_name :: string
  p_email :: string
  p_registration_no :: string
  p_branch :: string
  p_semester :: string
  p_mobile :: string
  p_role :: string

type_synonym populated_event =
  "populated_user option registration list option event_doc"

record db =
  events :: "event list"
  users :: "user_doc list"

text \<open>
  Every awaited store call either rejects (connection loss, a cast or validation error of
  the schema, an invalid query) or runs on the state the store has at that moment. A read
  call is given as the state it sees; two reads of one handler may see different states.
\<close>

datatype 's call = Rejects error | Sees 's

subsection \<open>Responses\<close>

text \<open>
  A number of the handler is an IEEE double: NaN, an infinity, the negative zero, or a
  finite double, given by its value (the positive zero is \<open>Fin 0\<close>). In a response NaN
  and the infinities are serialised as \<^verbatim>\<open>null\<close>, the negative zero as \<^verbatim>\<open>0\<close>.
\<close>

datatype jsnum = NaN | PosInf | NegInf | NegZero | Fin rat

datatype body =
    Message string
      \<comment> \<open>\<^verbatim>\<open>{message}\<close>\<close>
  | Failure string
      \<comment> \<open>\<^verbatim>\<open>{success: false, message}\<close>\<close>
  | FailureWithError string string
      \<comment> \<open>\<^verbatim>\<open>{success: false, message, error}\<close>\<close>
  | EventList "nat event_doc list"
      \<comment> \<open>the array of \<^verbatim>\<open>GET /events\<close>\<close>
  | EventBody event
      \<comment> \<open>the bare event document\<close>
  | UsersPage "user_doc list" nat jsnum jsnum
      \<comment> \<open>\<^verbatim>\<open>{users, total, page, totalPages}\<close>\<close>
  | SuccessUser user_doc
      \<comment> \<open>\<^verbatim>\<open>{success: true, data}\<close>\<close>
  | SuccessEvents nat "(populated_event \<times> nat) list"
      \<comment> \<open>\<^verbatim>\<open>{success: true, count, data}\<close>, each item with its \<^verbatim>\<open>registrationCount\<close>\<close>
  | SuccessRegistrations nat "populated_user option registration list"
      \<comment> \<open>\<^verbatim>\<open>{success: true, count, data}\<close>\<close>

datatype response = Response (code: nat) (payload: body)

definition server_error :: response where
  "server_error = Response 500 (Message ''Server error'')"

section \<open>Store operations\<close>

text \<open>\<^verbatim>\<open>sort({key: -1})\<close>: descending by the key.\<close>

fun insert_desc :: "('a \<Rightarrow> 'k::linorder) \<Rightarrow> 'a \<Rightarrow> 'a list \<Rightarrow> 'a list" where
  "insert_desc f x [] = [x]"
| "insert_desc f x (y # ys) =
     (if f y \<le> f x then x # y # ys else y # insert_desc f x ys)"

definition sort_desc :: "('a \<Rightarrow> 'k::linorder) \<Rightarrow> 'a list \<Rightarrow> 'a list" where
  "sort_desc f xs = foldr (insert_desc f) xs []"

text \<open>The sort key of a date: an invalid date sorts below every instant.\<close>

fun date_key :: "date_value \<Rightarrow> int option" where
  "date_key InvalidDate = None"
| "date_key (Instant t) = Some t"

text \<open>\<^verbatim>\<open>Event.find().sort({ date: -1 })\<close>\<close>

definition Event_find_sorted :: "db \<Rightarrow> event list" where
  "Event_find_sorted s = sort_desc (\<lambda>e. date_key (date e)) (events s)"

text \<open>\<^verbatim>\<open>Event.countDocuments({ _id: id })\<close>\<close>

definition Event_countDocuments_id :: "db \<Rightarrow> oid \<Rightarrow> nat" where
  "Event_countDocuments_id s i = length (filter (\<lambda>e. ev_id e = i) (events s))"

text \<open>
  \<^verbatim>\<open>Promise.all\<close>: the values in the order of the promises when all of them fulfil, a
  rejection as soon as one of them rejects. The model reports the first rejection in list
  order; the handler only logs it.
\<close>

fun promise_all :: "(error + 'a) list \<Rightarrow> error + 'a list" where
  "promise_all [] = Inr []"
| "promise_all (r # rs) =
     (case r of
        Inl e \<Rightarrow> Inl e
      | Inr v \<Rightarrow> (case promise_all rs of Inl e \<Rightarrow> Inl e | Inr vs \<Rightarrow> Inr (v # vs)))"

section \<open>Handlers\<close>

subsection \<open>\<^verbatim>\<open>GET /events\<close>\<close>

text \<open>\<^verbatim>\<open>{...event.toObject(), registrations}\<close>: the count replaces the array under the key.\<close>

definition with_registrations :: "event \<Rightarrow> nat \<Rightarrow> nat event_doc" where
  "with_registrations e n =
     \<lparr>ev_id = ev_id e, title = title e, description = description e, date = date e,
      time = time e, venue = venue e, status = status e, registrations = n\<rparr>"

text \<open>The callback mapped over the events; \<open>c\<close> is what its count query meets.\<close>

definition count_registrations :: "db call \<Rightarrow> event \<Rightarrow> error + nat event_doc" where
  "count_registrations c e =
     (case c of
        Rejects err \<Rightarrow> Inl err
      | Sees s \<Rightarrow> Inr (with_registrations e (Event_countDocuments_id s (ev_id e))))"

text \<open>
  \<open>found\<close> is the call of \<^verbatim>\<open>Event.find\<close>; \<open>counts k\<close> is the call of the count query
  issued for the event at position \<open>k\<close> of the sorted list.
\<close>

definition get_events :: "db call \<Rightarrow> (nat \<Rightarrow> db call) \<Rightarrow> response" where
  "get_events found counts =
     (case found of
        Rejects err \<Rightarrow> server_error
      | Sees s \<Rightarrow>
          (let events = Event_find_sorted s in
           case promise_all
                  (map (\<lambda>(k, event). count_registrations (counts k) event)
                     (enumerate 0 events)) of
             Inl err \<Rightarrow> server_error
           | Inr eventsWithRegistrations \<Rightarrow> Response 200 (EventList eventsWithRegistrations)))"

subsection \<open>\<^verbatim>\<open>POST /events\<close> and \<^verbatim>\<open>PUT /events/:id\<close>\<close>

text \<open>
  The fields the handlers take from \<^verbatim>\<open>req.body\<close>. The date is kept as the value
  \<^verbatim>\<open>new Date(date)\<close> has for it.
\<close>

record event_body =
  req_title :: string
  req_description :: string
  req_date :: date_value
  req_time :: string
  req_venue :: string

text \<open>
  \<^verbatim>\<open>a > b\<close> on two dates compares their time values as numbers; a comparison with NaN is
  false.
\<close>

fun date_gt :: "date_value \<Rightarrow> date_value \<Rightarrow> bool" where
  "date_gt (Instant a) (Instant b) = (b < a)"
| "date_gt _ _ = False"

text \<open>
  \<^verbatim>\<open>new Date(date) > new Date() ? 'upcoming' : 'past'\<close>, with \<open>now\<close> the clock's reading
  in milliseconds.
\<close>

definition derive_status :: "date_value \<Rightarrow> int \<Rightarrow> string" where
  "derive_status d now = (if date_gt d (Instant now) then ''upcoming'' else ''past'')"

text \<open>
  Modelled from the spec: the event schema \<^verbatim>\<open>models/Event\<close> is not among the sources.
  A new document gets a fresh id from the mapper (\<open>new_id\<close>) and, with no registrations
  supplied, an empty registrations array (section 8 of the specification: a created event
  is read back with \<^verbatim>\<open>registrations === []\<close>).
\<close>

definition new_Event :: "oid \<Rightarrow> event_body \<Rightarrow> string \<Rightarrow> event" where
  "new_Event new_id b st =
     \<lparr>ev_id = new_id, title = req_title b, description = req_description b,
      date = req_date b, time = req_time b, venue = req_venue b, status = st,
      registrations = Some []\<rparr>"

text \<open>
  \<open>fault\<close> is \<open>Some err\<close> when \<^verbatim>\<open>event.save()\<close> rejects (the schema's validation
  included); the store is then as before.
\<close>

definition post_events :: "error option \<Rightarrow> oid \<Rightarrow> int \<Rightarrow> event_body \<Rightarrow> db \<Rightarrow> response \<times> db" where
  "post_events fault new_id now b s =
     (let event = new_Event new_id b (derive_status (req_date b) now) in
      case fault of
        Some err \<Rightarrow> (server_error, s)
      | None \<Rightarrow> (Response 201 (EventBody event), s\<lparr>events := events s @ [event]\<rparr>))"

text \<open>
  \<^verbatim>\<open>findByIdAndUpdate\<close> with \<^verbatim>\<open>{new: true}\<close> on a collection: the first document that
  satisfies \<open>p\<close> is replaced by its update; the result is the updated document and the new
  collection, or \<open>None\<close> (the handler's \<^verbatim>\<open>null\<close>) when no document satisfies \<open>p\<close>.
\<close>

fun find_and_update :: "('a \<Rightarrow> bool) \<Rightarrow> ('a \<Rightarrow> 'a) \<Rightarrow> 'a list \<Rightarrow> ('a \<times> 'a list) option" where
  "find_and_update p f [] = None"
| "find_and_update p f (x # xs) =
     (if p x then Some (f x, f x # xs)
      else (case find_and_update p f xs of
              None \<Rightarrow> None
            | Some (d, ys) \<Rightarrow> Some (d, x # ys)))"

text \<open>The update document \<^verbatim>\<open>{title, description, date, time, venue, status}\<close>.\<close>

definition apply_event_update :: "event_body \<Rightarrow> string \<Rightarrow> event \<Rightarrow> event" where
  "apply_event_update b st e =
     e\<lparr>title := req_title b, description := req_description b, date := req_date b,
       time := req_time b, venue := req_venue b, status := st\<rparr>"

definition put_events_id :: "error option \<Rightarrow> oid \<Rightarrow> int \<Rightarrow> event_body \<Rightarrow> db \<Rightarrow> response \<times> db" where
  "put_events_id fault i now b s =
     (case fault of
        Some err \<Rightarrow> (server_error, s)
      | None \<Rightarrow>
          (case find_and_update (\<lambda>e. ev_id e = i)
                  (apply_event_update b (derive_status (req_date b) now)) (events s) of
             None \<Rightarrow> (Response 404 (Message ''Event not found''), s)
           | Some (event, es) \<Rightarrow> (Response 200 (EventBody event), s\<lparr>events := es\<rparr>)))"

subsection \<open>\<^verbatim>\<open>DELETE /events/:id\<close>\<close>

text \<open>
  \<^verbatim>\<open>findByIdAndDelete\<close> on a collection: the first document that satisfies \<open>p\<close> is
  removed and returned with the new collection.
\<close>

fun find_and_delete :: "('a \<Rightarrow> bool) \<Rightarrow> 'a list \<Rightarrow> ('a \<times> 'a list) option" where
  "find_and_delete p [] = None"
| "find_and_delete p (x # xs) =
     (if p x then Some (x, xs)
      else (case find_and_delete p xs of
              None \<Rightarrow> None
            | Some (d, ys) \<Rightarrow> Some (d, x # ys)))"

definition delete_events_id :: "error option \<Rightarrow> oid \<Rightarrow> db \<Rightarrow> response \<times> db" where
  "delete_events_id fault i s =
     (case fault of
        Some err \<Rightarrow> (server_error, s)
      | None \<Rightarrow>
          (case find_and_delete (\<lambda>e. ev_id e = i) (events s) of
             None \<Rightarrow> (Response 404 (Message ''Event not found''), s)
           | Some (event, es) \<Rightarrow>
               (Response 200 (Message ''Event deleted successfully''), s\<lparr>events := es\<rparr>)))"

subsection \<open>\<^verbatim>\<open>GET /users\<close>\<close>

text \<open>
  The keys \<^verbatim>\<open>search\<close>, \<^verbatim>\<open>page\<close> and \<^verbatim>\<open>limit\<close> of the query string: absent, or a text.
\<close>

record users_query =
  q_search :: "string option"
  q_page :: "string option"
  q_limit :: "string option"

text \<open>
  What is left to the platform. The model fixes the regular expression engine on a fragment
  of patterns and on ASCII subjects, the conversions from text to number on decimal
  numerals and on texts that are clearly no number, the rounding of arithmetic on the safe
  integers, and the cursor of the store on safe integers. Everywhere else the answer is the
  platform's: whether a pattern compiles and what it finds in a subject, the number and
  the \<^verbatim>\<open>parseInt\<close> of a text, the double nearest to a rational, and what the cursor
  returns for a skip and a limit.
\<close>

record platform =
  compiles :: "string \<Rightarrow> bool"
  found_in :: "string \<Rightarrow> string \<Rightarrow> bool"
  number_of :: "string \<Rightarrow> jsnum"
  integer_of :: "string \<Rightarrow> jsnum"
  rounded :: "rat \<Rightarrow> jsnum"
  cursor :: "jsnum \<Rightarrow> jsnum \<Rightarrow> user_doc list \<Rightarrow> error + user_doc list"

text \<open>
  The variables \<^verbatim>\<open>page\<close> and \<^verbatim>\<open>limit\<close> after the destructuring
  \<^verbatim>\<open>{ search, page = 1, limit = 10 }\<close>: the number literal of the default for an absent
  key, else the text of the key.
\<close>

datatype jsval = Literal int | Text string

fun or_default :: "string option \<Rightarrow> int \<Rightarrow> jsval" where
  "or_default None d = Literal d"
| "or_default (Some t) d = Text t"

subsubsection \<open>Numbers\<close>

text \<open>
  Every integer up to \<^verbatim>\<open>Number.MAX_SAFE_INTEGER\<close> in magnitude is a double, and a result
  of arithmetic that is such an integer is not rounded.
\<close>

definition MAX_SAFE_INTEGER :: int where
  "MAX_SAFE_INTEGER = 9007199254740991"

definition safe_integer :: "rat \<Rightarrow> bool" where
  "safe_integer q = (of_int \<lfloor>q\<rfloor> = q \<and> \<bar>q\<bar> \<le> of_int MAX_SAFE_INTEGER)"

definition js_round :: "platform \<Rightarrow> rat \<Rightarrow> jsnum" where
  "js_round env q = (if safe_integer q then Fin q else rounded env q)"

fun is_zero :: "jsnum \<Rightarrow> bool" where
  "is_zero NegZero = True"
| "is_zero (Fin q) = (q = 0)"
| "is_zero _ = False"

fun is_infinite :: "jsnum \<Rightarrow> bool" where
  "is_infinite PosInf = True"
| "is_infinite NegInf = True"
| "is_infinite _ = False"

fun negative :: "jsnum \<Rightarrow> bool" where
  "negative NegInf = True"
| "negative NegZero = True"
| "negative (Fin q) = (q < 0)"
| "negative _ = False"

fun value_of :: "jsnum \<Rightarrow> rat" where
  "value_of (Fin q) = q"
| "value_of _ = 0"

text \<open>\<^verbatim>\<open>x - 1\<close>\<close>

fun js_minus_one :: "platform \<Rightarrow> jsnum \<Rightarrow> jsnum" where
  "js_minus_one env NaN = NaN"
| "js_minus_one env PosInf = PosInf"
| "js_minus_one env NegInf = NegInf"
| "js_minus_one env NegZero = Fin (- 1)"
| "js_minus_one env (Fin q) = js_round env (q - 1)"

text \<open>
  \<^verbatim>\<open>x * y\<close>: NaN for a NaN operand and for an infinity times a zero; otherwise the sign is
  negative exactly when the signs of the operands differ.
\<close>

definition js_times :: "platform \<Rightarrow> jsnum \<Rightarrow> jsnum \<Rightarrow> jsnum" where
  "js_times env x y =
     (if x = NaN \<or> y = NaN then NaN
      else if (is_infinite x \<and> is_zero y) \<or> (is_zero x \<and> is_infinite y) then NaN
      else if is_infinite x \<or> is_infinite y
        then (if negative x \<noteq> negative y then NegInf else PosInf)
      else if is_zero x \<or> is_zero y
        then (if negative x \<noteq> negative y then NegZero else Fin 0)
      else js_round env (value_of x * value_of y))"

text \<open>
  \<^verbatim>\<open>x / y\<close>: NaN for a NaN operand, for two infinities and for two zeros; a division by a
  zero, or of an infinity, is an infinity; a division by an infinity, or of a zero, is a
  zero.
\<close>

definition js_divide :: "platform \<Rightarrow> jsnum \<Rightarrow> jsnum \<Rightarrow> jsnum" where
  "js_divide env x y =
     (if x = NaN \<or> y = NaN then NaN
      else if (is_infinite x \<and> is_infinite y) \<or> (is_zero x \<and> is_zero y) then NaN
      else if is_infinite x \<or> is_zero y
        then (if negative x \<noteq> negative y then NegInf else PosInf)
      else if is_infinite y \<or> is_zero x
        then (if negative x \<noteq> negative y then NegZero else Fin 0)
      else js_round env (value_of x / value_of y))"

text \<open>\<^verbatim>\<open>Math.ceil\<close>: a negative number above \<open>-1\<close> goes to the negative zero.\<close>

fun js_ceil :: "jsnum \<Rightarrow> jsnum" where
  "js_ceil (Fin q) = (if \<lceil>q\<rceil> = 0 \<and> q < 0 then NegZero else Fin (of_int \<lceil>q\<rceil>))"
| "js_ceil x = x"

text \<open>
  \<^verbatim>\<open>Math.ceil(total / limit)\<close> for the count \<open>n\<close>. For two safe integers the double nearest
  to the quotient lies on the same side of every integer as the quotient, so the ceiling is
  that of the quotient.
\<close>

definition ceil_div :: "platform \<Rightarrow> nat \<Rightarrow> jsnum \<Rightarrow> jsnum" where
  "ceil_div env n lmt =
     (if int n \<le> MAX_SAFE_INTEGER \<and> \<not> is_zero lmt \<and> lmt = Fin (value_of lmt) \<and>
         safe_integer (value_of lmt)
      then js_ceil (if n = 0 then js_divide env (Fin 0) lmt else Fin (of_nat n / value_of lmt))
      else js_ceil (js_divide env (js_round env (of_nat n)) lmt))"

subsubsection \<open>Numbers from texts\<close>

definition is_digit :: "char \<Rightarrow> bool" where
  "is_digit c = (let n = (of_char c :: nat) in 48 \<le> n \<and> n \<le> 57)"

definition is_letter :: "char \<Rightarrow> bool" where
  "is_letter c =
     (let n = (of_char c :: nat) in (65 \<le> n \<and> n \<le> 90) \<or> (97 \<le> n \<and> n \<le> 122))"

definition digits_value :: "string \<Rightarrow> nat" where
  "digits_value s = foldl (\<lambda>a c. 10 * a + ((of_char c :: nat) - 48)) 0 s"

definition unsigned_numeral :: "string \<Rightarrow> bool" where
  "unsigned_numeral s = (s \<noteq> [] \<and> list_all is_digit s)"

text \<open>
  A decimal numeral with an optional sign: whether the sign is \<^verbatim>\<open>-\<close>, and the value of
  the digits.
\<close>

fun signed_numeral :: "string \<Rightarrow> (bool \<times> nat) option" where
  "signed_numeral [] = None"
| "signed_numeral (c # cs) =
     (if c = CHR ''-'' \<and> unsigned_numeral cs then Some (True, digits_value cs)
      else if c = CHR ''+'' \<and> unsigned_numeral cs then Some (False, digits_value cs)
      else if unsigned_numeral (c # cs) then Some (False, digits_value (c # cs))
      else None)"

definition signed_value :: "bool \<Rightarrow> nat \<Rightarrow> jsnum" where
  "signed_value neg n =
     (if neg then (if n = 0 then NegZero else Fin (- of_nat n)) else Fin (of_nat n))"

fun starts_with_letter :: "string \<Rightarrow> bool" where
  "starts_with_letter [] = False"
| "starts_with_letter (c # cs) = is_letter c"

text \<open>
  The number of a text, as \<^verbatim>\<open>-\<close>, \<^verbatim>\<open>*\<close> and \<^verbatim>\<open>/\<close> take it: 0 for the empty text, the value
  of a signed decimal numeral within the safe integers, NaN for a text that starts with a
  letter other than the \<^verbatim>\<open>I\<close> of \<^verbatim>\<open>Infinity\<close> (a numeric text starts with a digit, a sign,
  a dot, white space or that \<^verbatim>\<open>I\<close>).
\<close>

definition StringToNumber :: "platform \<Rightarrow> string \<Rightarrow> jsnum" where
  "StringToNumber env s =
     (if s = [] then Fin 0
      else case signed_numeral s of
        Some (neg, n) \<Rightarrow>
          (if int n \<le> MAX_SAFE_INTEGER then signed_value neg n else number_of env s)
      | None \<Rightarrow>
          (if starts_with_letter s \<and> hd s \<noteq> CHR ''I'' then NaN else number_of env s))"

fun ToNumber :: "platform \<Rightarrow> jsval \<Rightarrow> jsnum" where
  "ToNumber env (Literal d) = Fin (of_int d)"
| "ToNumber env (Text s) = StringToNumber env s"

text \<open>
  \<^verbatim>\<open>parseInt\<close>: the value of a signed decimal numeral within the safe integers, NaN for the
  empty text and for a text that starts with a letter (no digit of radix 10 is there to
  read). The number literals of the source, 1 and 10, are their own \<^verbatim>\<open>parseInt\<close>.
\<close>

fun parseInt :: "platform \<Rightarrow> jsval \<Rightarrow> jsnum" where
  "parseInt env (Literal d) = Fin (of_int d)"
| "parseInt env (Text s) =
     (case signed_numeral s of
        Some (neg, n) \<Rightarrow>
          (if int n \<le> MAX_SAFE_INTEGER then signed_value neg n else integer_of env s)
      | None \<Rightarrow> (if s = [] \<or> starts_with_letter s then NaN else integer_of env s))"

subsubsection \<open>The query\<close>

text \<open>
  The query object: \<^verbatim>\<open>{}\<close>, or the \<^verbatim>\<open>$or\<close> of three \<^verbatim>\<open>$regex\<close> conditions with option
  \<^verbatim>\<open>i\<close> on name, email and registration number. \<^verbatim>\<open>if (search)\<close> is false for an absent
  and for an empty search.
\<close>

datatype user_filter = MatchAll | SearchAny string

definition build_query :: "string option \<Rightarrow> user_filter" where
  "build_query search =
     (case search of
        None \<Rightarrow> MatchAll
      | Some pat \<Rightarrow> if pat = [] then MatchAll else SearchAny pat)"

text \<open>
  The store's regular expressions, as far as the model fixes them. Outside a character
  class these characters are not literals:
\<close>

definition regex_special :: "char list" where
  "regex_special = CHR 0x5C # ''^$.[]|()?*+{}''"

text \<open>
  Every other ASCII character but NUL is a literal. A text of literals only is plain; a
  pattern of literals and dots is in the modelled fragment. With option \<^verbatim>\<open>i\<close> a literal
  matches the character that equals it up to the case of ASCII letters; a dot matches any
  character but the line feed.
\<close>

definition literal_char :: "char \<Rightarrow> bool" where
  "literal_char c = (c \<notin> set regex_special \<and> 0 < (of_char c :: nat) \<and> (of_char c :: nat) < 128)"

definition plain_text :: "string \<Rightarrow> bool" where
  "plain_text pat = list_all literal_char pat"

definition in_fragment :: "string \<Rightarrow> bool" where
  "in_fragment pat = list_all (\<lambda>c. c = CHR ''.'' \<or> literal_char c) pat"

definition ascii_text :: "string \<Rightarrow> bool" where
  "ascii_text s = list_all (\<lambda>c. (of_char c :: nat) < 128) s"

definition to_lower :: "char \<Rightarrow> char" where
  "to_lower c =
     (let n = (of_char c :: nat) in if 65 \<le> n \<and> n \<le> 90 then char_of (n + 32) else c)"

definition item_matches :: "char \<Rightarrow> char \<Rightarrow> bool" where
  "item_matches p c = (if p = CHR ''.'' then c \<noteq> CHR 0x0A else to_lower p = to_lower c)"

fun match_here :: "string \<Rightarrow> string \<Rightarrow> bool" where
  "match_here [] cs = True"
| "match_here (p # ps) [] = False"
| "match_here (p # ps) (c # cs) = (item_matches p c \<and> match_here ps cs)"

text \<open>An unanchored pattern matches when it matches at some position of the subject.\<close>

fun match_anywhere :: "string \<Rightarrow> string \<Rightarrow> bool" where
  "match_anywhere pat [] = match_here pat []"
| "match_anywhere pat (c # cs) = (match_here pat (c # cs) \<or> match_anywhere pat cs)"

text \<open>
  Compiling a pattern with option \<^verbatim>\<open>i\<close>: \<open>None\<close> for a pattern that does not compile,
  else its matcher. A pattern of the fragment compiles, and on an ASCII subject it matches
  as above.
\<close>

definition regex_i :: "platform \<Rightarrow> string \<Rightarrow> (string \<Rightarrow> bool) option" where
  "regex_i env pat =
     (if in_fragment pat
      then Some (\<lambda>s. if ascii_text s then match_anywhere pat s else found_in env pat s)
      else if compiles env pat then Some (found_in env pat)
      else None)"

text \<open>The documents of a collection that a query object selects; an invalid pattern rejects.\<close>

definition matching :: "platform \<Rightarrow> user_filter \<Rightarrow> user_doc list \<Rightarrow> error + user_doc list" where
  "matching env query us =
     (case query of
        MatchAll \<Rightarrow> Inr us
      | SearchAny pat \<Rightarrow>
          (case regex_i env pat of
             None \<Rightarrow> Inl (Error ''Regular expression is invalid'')
           | Some m \<Rightarrow>
               Inr (filter (\<lambda>u. m (name u) \<or> m (email u) \<or> m (registration_no u)) us)))"

text \<open>\<^verbatim>\<open>User.countDocuments(query)\<close>\<close>

definition User_countDocuments :: "platform \<Rightarrow> user_filter \<Rightarrow> db \<Rightarrow> error + nat" where
  "User_countDocuments env query s =
     (case matching env query (users s) of
        Inl err \<Rightarrow> Inl err
      | Inr us \<Rightarrow> Inr (length us))"

text \<open>\<^verbatim>\<open>select('-password')\<close>\<close>

definition select_no_password :: "user_doc \<Rightarrow> user_doc" where
  "select_no_password u = u\<lparr>password := None\<rparr>"

text \<open>
  The cursor's \<^verbatim>\<open>skip\<close> and \<^verbatim>\<open>limit\<close>, applied after the sort, for a skip that is a safe
  integer and a limit that is a safe integer and not negative: the store rejects a negative
  skip, and a limit of 0 is no limit.
\<close>

definition skip_limit :: "platform \<Rightarrow> jsnum \<Rightarrow> jsnum \<Rightarrow> user_doc list \<Rightarrow> error + user_doc list" where
  "skip_limit env sk lmt xs =
     (if sk = Fin (value_of sk) \<and> safe_integer (value_of sk) \<and>
         lmt = Fin (value_of lmt) \<and> safe_integer (value_of lmt) \<and> 0 \<le> value_of lmt
      then
        (if value_of sk < 0 then Inl (Error ''Skip value must be non-negative'')
         else if value_of lmt = 0 then Inr (drop (nat \<lfloor>value_of sk\<rfloor>) xs)
         else Inr (take (nat \<lfloor>value_of lmt\<rfloor>) (drop (nat \<lfloor>value_of sk\<rfloor>) xs)))
      else cursor env sk lmt xs)"

text \<open>
  \<^verbatim>\<open>User.find(query).select('-password').sort({ createdAt: -1 }).skip(sk).limit(lmt)\<close>
\<close>

definition User_find_page :: "platform \<Rightarrow> user_filter \<Rightarrow> jsnum \<Rightarrow> jsnum \<Rightarrow> db \<Rightarrow> error + user_doc list" where
  "User_find_page env query sk lmt s =
     (case matching env query (users s) of
        Inl err \<Rightarrow> Inl err
      | Inr us \<Rightarrow> skip_limit env sk lmt (sort_desc createdAt (map select_no_password us)))"

text \<open>\<^verbatim>\<open>(page - 1) * limit\<close>\<close>

definition skip_argument :: "platform \<Rightarrow> jsval \<Rightarrow> jsval \<Rightarrow> jsnum" where
  "skip_argument env page limit =
     js_times env (js_minus_one env (ToNumber env page)) (ToNumber env limit)"

text \<open>
  \<open>counted\<close> is the call of \<^verbatim>\<open>countDocuments\<close>, \<open>found\<close> the call of \<^verbatim>\<open>find\<close> that
  follows it.
\<close>

definition get_users :: "platform \<Rightarrow> db call \<Rightarrow> db call \<Rightarrow> users_query \<Rightarrow> response" where
  "get_users env counted found q =
     (let search = q_search q;
          page = or_default (q_page q) 1;
          limit = or_default (q_limit q) 10;
          query = build_query search
      in case counted of
           Rejects err \<Rightarrow> server_error
         | Sees s1 \<Rightarrow>
             (case User_countDocuments env query s1 of
                Inl err \<Rightarrow> server_error
              | Inr total' \<Rightarrow>
                  (case found of
                     Rejects err \<Rightarrow> server_error
                   | Sees s2 \<Rightarrow>
                       (case User_find_page env query (skip_argument env page limit)
                               (parseInt env limit) s2 of
                          Inl err \<Rightarrow> server_error
                        | Inr users' \<Rightarrow>
                            Response 200
                              (UsersPage users' total' (parseInt env page)
                                 (ceil_div env total' (ToNumber env limit)))))))"

subsection \<open>\<^verbatim>\<open>PUT /users/:id/role\<close>\<close>

text \<open>
  \<open>new_role\<close> is the value of \<^verbatim>\<open>role\<close> in the body: \<open>Some\<close> of a string, or \<open>None\<close>
  when the body has no string there. \<^verbatim>\<open>includes\<close> holds for a string of the array only.
\<close>

definition array_includes :: "string list \<Rightarrow> string option \<Rightarrow> bool" where
  "array_includes xs v = (case v of None \<Rightarrow> False | Some r \<Rightarrow> r \<in> set xs)"

text \<open>\<open>fault\<close> is \<open>Some err\<close> when \<^verbatim>\<open>findByIdAndUpdate\<close> rejects.\<close>

definition put_users_id_role :: "error option \<Rightarrow> oid \<Rightarrow> string option \<Rightarrow> db \<Rightarrow> response \<times> db" where
  "put_users_id_role fault i new_role s =
     (if \<not> array_includes [''user'', ''admin'', ''superadmin''] new_role
      then (Response 400 (Failure ''Invalid role specified''), s)
      else
        (case fault of
           Some err \<Rightarrow>
             (Response 500 (FailureWithError ''Error updating user role'' (message err)), s)
         | None \<Rightarrow>
             (case find_and_update (\<lambda>u. user_id u = i) (\<lambda>u. u\<lparr>role := the new_role\<rparr>)
                     (users s) of
                None \<Rightarrow> (Response 404 (Failure ''User not found''), s)
              | Some (user', us) \<Rightarrow>
                  (Response 200 (SuccessUser (select_no_password user')), s\<lparr>users := us\<rparr>))))"

subsection \<open>\<^verbatim>\<open>GET /events/all\<close> and \<^verbatim>\<open>GET /events/:id/registrations\<close>\<close>

definition project_user :: "user_doc \<Rightarrow> populated_user" where
  "project_user u =
     \<lparr>p_id = user_id u, p_name = name u, p_email = email u,
      p_registration_no = registration_no u, p_branch = branch u,
      p_semester = semester u, p_mobile = mobile u, p_role = role u\<rparr>"

text \<open>A reference to a user that is not in the collection is populated with \<^verbatim>\<open>null\<close>.\<close>

definition populate_registration :: "user_doc list \<Rightarrow> oid registration \<Rightarrow> populated_user option registration" where
  "populate_registration us r =
     \<lparr>user = map_option project_user (find (\<lambda>u. user_id u = user r) us),
      details = details r\<rparr>"

definition populate :: "user_doc list \<Rightarrow> event \<Rightarrow> populated_event" where
  "populate us e =
     \<lparr>ev_id = ev_id e, title = title e, description = description e, date = date e,
      time = time e, venue = venue e, status = status e,
      registrations = map_option (map (populate_registration us)) (registrations e)\<rparr>"

text \<open>\<^verbatim>\<open>event.registrations ? event.registrations.length : 0\<close>; an array is truthy.\<close>

definition registrationCount :: "populated_event \<Rightarrow> nat" where
  "registrationCount e = (case registrations e of None \<Rightarrow> 0 | Some rs \<Rightarrow> length rs)"

definition get_events_all :: "db call \<Rightarrow> response" where
  "get_events_all found =
     (case found of
        Rejects err \<Rightarrow> Response 500 (FailureWithError ''Error fetching events'' (message err))
      | Sees s \<Rightarrow>
          (let events = map (populate (users s)) (Event_find_sorted s);
               transformedEvents = map (\<lambda>event. (event, registrationCount event)) events
           in Response 200 (SuccessEvents (length events) transformedEvents)))"

text \<open>
  Reading \<^verbatim>\<open>length\<close> of a missing \<^verbatim>\<open>registrations\<close> throws a \<^verbatim>\<open>TypeError\<close>, which the
  handler's \<^verbatim>\<open>catch\<close> turns into the 500 response.
\<close>

definition get_events_id_registrations :: "db call \<Rightarrow> oid \<Rightarrow> response" where
  "get_events_id_registrations found i =
     (case found of
        Rejects err \<Rightarrow>
          Response 500 (FailureWithError ''Error fetching event registrations'' (message err))
      | Sees s \<Rightarrow>
          (case find (\<lambda>e. ev_id e = i) (events s) of
             None \<Rightarrow> Response 404 (Failure ''Event not found'')
           | Some e \<Rightarrow>
               (case registrations (populate (users s) e) of
                  None \<Rightarrow>
                    Response 500
                      (FailureWithError ''Error fetching event registrations''
                         ''Cannot read properties of undefined (reading 'length')'')
                | Some rs \<Rightarrow> Response 200 (SuccessRegistrations (length rs) rs))))"

section \<open>The specification's wording, and an example store\<close>

text \<open>
  The specification describes the search as a case-insensitive substring match: the
  search text occurs in the field when the case of letters is ignored.
\<close>

definition substring_ci :: "string \<Rightarrow> string \<Rightarrow> bool" where
  "substring_ci pat s = sublist (map to_lower pat) (map to_lower s)"

text \<open>Documents for the examples.\<close>

definition member :: "oid \<Rightarrow> string \<Rightarrow> string \<Rightarrow> string \<Rightarrow> int \<Rightarrow> user_doc" where
  "member i n e r t =
     \<lparr>user_id = i, name = n, email = e, registration_no = r, role = ''user'',
      password = Some ''secret'', branch = ''CSE'', semester = ''3'',
      mobile = ''0000000000'', createdAt = t\<rparr>"

definition meetup :: "oid \<Rightarrow> int \<Rightarrow> oid registration list \<Rightarrow> event" where
  "meetup i t rs =
     \<lparr>ev_id = i, title = ''Meetup'', description = ''Monthly meetup'', date = Instant t,
      time = ''10:00'', venue = ''Hall'', status = ''past'', registrations = Some rs\<rparr>"

definition sample_db :: db where
  "sample_db =
     \<lparr>events = [meetup ''e1'' 5 [], meetup ''e2'' 9 [\<lparr>user = ''u1'', details = ''paid''\<rparr>]],
      users = [member ''u1'' ''Test User'' ''a@x.com'' ''R1'' 1,
               member ''u2'' ''Bob'' ''test@x.com'' ''R2'' 2,
               member ''u3'' ''Cy'' ''c@x.com'' ''TEST123'' 3,
               member ''u4'' ''Dee'' ''d@x.com'' ''R4'' 4]\<rparr>"

text \<open>Twenty-five users, created at the instants 0 to 24.\<close>

definition roster :: db where
  "roster =
     \<lparr>events = [],
      users = map (\<lambda>k. member (replicate (Suc k) (CHR ''u'')) ''N'' ''e'' ''r'' (int k)) [0..<25]\<rparr>"

definition sample_body :: event_body where
  "sample_body =
     \<lparr>req_title = ''Talk'', req_description = ''A talk'', req_date = Instant 100,
      req_time = ''18:00'', req_venue = ''Lab''\<rparr>"

text \<open>
  Two runs of the count queries of \<^verbatim>\<open>GET /events\<close> on the example store: one in which
  the event \<^verbatim>\<open>e1\<close> is deleted before the second count query runs, one in which the
  second count query rejects.
\<close>

definition sample_counts :: "nat \<Rightarrow> db call" where
  "sample_counts k =
     (if k = 0 then Sees sample_db
      else Sees (sample_db\<lparr>events := [meetup ''e2'' 9 [\<lparr>user = ''u1'', details = ''paid''\<rparr>]]\<rparr>))"

definition failing_counts :: "nat \<Rightarrow> db call" where
  "failing_counts k = (if k = 1 then Rejects (Error ''connection lost'') else Sees sample_db)"

text \<open>
  A platform for the examples, which all stay where the model fixes the answer, and a store
  whose one user has no dot in any of the searched fields.
\<close>

definition bare_platform :: platform where
  "bare_platform =
     \<lparr>compiles = (\<lambda>pat. False), found_in = (\<lambda>pat s. False), number_of = (\<lambda>s. NaN),
      integer_of = (\<lambda>s. NaN), rounded = (\<lambda>q. NaN),
      cursor = (\<lambda>sk lmt xs. Inl (Error ''unsupported''))\<rparr>"

definition dotless_db :: db where
  "dotless_db = \<lparr>events = [], users = [member ''u5'' ''Asha'' ''asha@genx'' ''R5'' 5]\<rparr>"

text \<open>The decimal numeral of a natural number.\<close>

function decimal :: "nat \<Rightarrow> string" where
  "decimal n =
     (if n < 10 then [char_of (48 + n)] else decimal (n div 10) @ [char_of (48 + n mod 10)])"
  by pat_completeness auto
termination
  by (relation "measure id") auto

declare decimal.simps [simp del]

section \<open>Properties of the store operations\<close>

lemma promise_all_map_Inr: "promise_all (map Inr vs) = Inr vs"
  by (induction vs) auto

lemma promise_all_InrD: "promise_all rs = Inr vs \<Longrightarrow> rs = map Inr vs"
  by (induction rs arbitrary: vs) (auto split: sum.splits)

lemma promise_all_Inl_iff: "(\<exists>e. promise_all rs = Inl e) \<longleftrightarrow> (\<exists>r\<in>set rs. \<exists>e. r = Inl e)"
  by (induction rs) (auto split: sum.splits)

lemma length_insert_desc: "length (insert_desc f x xs) = Suc (length xs)"
  by (induction xs) auto

lemma set_insert_desc: "set (insert_desc f x xs) = insert x (set xs)"
  by (induction xs) auto

lemma length_sort_desc: "length (sort_desc f xs) = length xs"
  by (induction xs) (auto simp: sort_desc_def length_insert_desc)

lemma set_sort_desc: "set (sort_desc f xs) = set xs"
  by (induction xs) (auto simp: sort_desc_def set_insert_desc)

lemma sorted_insert_desc:
  "sorted_wrt (\<lambda>a b. f b \<le> f a) xs \<Longrightarrow> sorted_wrt (\<lambda>a b. f b \<le> f a) (insert_desc f x xs)"
  by (induction xs) (auto simp: set_insert_desc)

lemma sorted_sort_desc: "sorted_wrt (\<lambda>a b. f b \<le> f a) (sort_desc f xs)"
  by (induction xs) (auto simp: sort_desc_def sorted_insert_desc)

lemma insert_desc_map: "insert_desc f (g x) (map g xs) = map g (insert_desc (\<lambda>a. f (g a)) x xs)"
  by (induction xs) auto

lemma sort_desc_map: "sort_desc f (map g xs) = map g (sort_desc (\<lambda>a. f (g a)) xs)"
  by (induction xs) (auto simp: sort_desc_def insert_desc_map)

lemma find_and_update_None: "find_and_update p f xs = None \<longleftrightarrow> (\<forall>x\<in>set xs. \<not> p x)"
  by (induction xs) (auto split: option.splits)

lemma find_and_update_Some:
  "find_and_update p f xs = Some (d, ys) \<Longrightarrow>
     \<exists>pre x post. xs = pre @ x # post \<and> (\<forall>y\<in>set pre. \<not> p y) \<and> p x \<and> d = f x \<and>
       ys = pre @ f x # post"
proof (induction xs arbitrary: ys)
  case Nil
  then show ?case by simp
next
  case (Cons a xs)
  show ?case
  proof (cases "p a")
    case True
    with Cons.prems have "a # xs = [] @ a # xs \<and> (\<forall>y\<in>set []. \<not> p y) \<and> p a \<and> d = f a \<and>
        ys = [] @ f a # xs"
      by auto
    then show ?thesis by blast
  next
    case False
    with Cons.prems obtain zs where zs: "find_and_update p f xs = Some (d, zs)" and ys: "ys = a # zs"
      by (auto split: option.splits)
    from Cons.IH[OF zs] obtain pre x post where
      "xs = pre @ x # post" "\<forall>y\<in>set pre. \<not> p y" "p x" "d = f x" "zs = pre @ f x # post"
      by blast
    with False ys have "a # xs = (a # pre) @ x # post \<and> (\<forall>y\<in>set (a # pre). \<not> p y) \<and> p x \<and>
        d = f x \<and> ys = (a # pre) @ f x # post"
      by simp
    then show ?thesis by blast
  qed
qed

lemma find_and_delete_None: "find_and_delete p xs = None \<longleftrightarrow> (\<forall>x\<in>set xs. \<not> p x)"
  by (induction xs) (auto split: option.splits)


lemma find_and_delete_Some:
  "find_and_delete p xs = Some (d, ys) \<Longrightarrow>
     \<exists>pre post. xs = pre @ d # post \<and> (\<forall>y\<in>set pre. \<not> p y) \<and> p d \<and> ys = pre @ post"
proof (induction xs arbitrary: ys)
  case Nil
  then show ?case by simp
next
  case (Cons a xs)
  show ?case
  proof (cases "p a")
    case True
    with Cons.prems have "a # xs = [] @ d # xs \<and> (\<forall>y\<in>set []. \<not> p y) \<and> p d \<and> ys = [] @ xs"
      by simp
    then show ?thesis by blast
  next
    case False
    with Cons.prems obtain zs where zs: "find_and_delete p xs = Some (d, zs)" and ys: "ys = a # zs"
      by (auto split: option.splits)
    from Cons.IH[OF zs] obtain pre post where
      "xs = pre @ d # post" "\<forall>y\<in>set pre. \<not> p y" "p d" "zs = pre @ post"
      by blast
    with False ys have "a # xs = (a # pre) @ d # post \<and> (\<forall>y\<in>set (a # pre). \<not> p y) \<and> p d \<and>
        ys = (a # pre) @ post"
      by simp
    then show ?thesis by blast
  qed
qed

lemma match_here_literal:
  "CHR ''.'' \<notin> set pat \<Longrightarrow> match_here pat s = prefix (map to_lower pat) (map to_lower s)"
  by (induction pat s rule: match_here.induct) (auto simp: item_matches_def)

lemma match_anywhere_literal:
  "CHR ''.'' \<notin> set pat \<Longrightarrow> match_anywhere pat s = sublist (map to_lower pat) (map to_lower s)"
  by (induction s) (auto simp: match_here_literal sublist_Cons_right)

lemma count_by_id_distinct:
  "distinct (map ev_id es) \<Longrightarrow>
     length (filter (\<lambda>e. ev_id e = i) es) = (if i \<in> ev_id ` set es then 1 else 0)"
  by (induction es) (auto simp: image_iff)

lemma sorted_wrt_take_drop:
  "sorted_wrt P xs \<Longrightarrow> sorted_wrt P (take n (drop k xs))"
  by (simp add: sorted_wrt_drop sorted_wrt_take)

lemma drop_as_nth: "length xs = n \<Longrightarrow> k \<le> n \<Longrightarrow> drop k xs = map (\<lambda>j. xs ! j) [k..<n]"
proof -
  assume n: "length xs = n" and k: "k \<le> n"
  have "drop k xs = drop k (map (\<lambda>j. xs ! j) [0..<n])"
    unfolding n[symmetric] by (simp only: map_nth)
  also have "\<dots> = map (\<lambda>j. xs ! j) (drop k [0..<n])"
    by (simp only: drop_map)
  also have "drop k [0..<n] = [k..<n]"
    by (simp add: drop_upt)
  finally show ?thesis .
qed

lemma derive_status_eq:
  "derive_status d now =
     (if \<exists>t. d = Instant t \<and> now < t then ''upcoming'' else ''past'')"
  by (cases d) (auto simp: derive_status_def)

section \<open>Properties of the handlers\<close>

subsection \<open>The event listings\<close>

lemma get_events_item_nth:
  assumes ok: "get_events (Sees s) counts = Response 200 (EventList items)"
  shows "length items = length (Event_find_sorted s)"
    and "k < length items \<Longrightarrow>
          \<exists>s'. counts k = Sees s' \<and>
            items ! k = with_registrations (Event_find_sorted s ! k)
              (Event_countDocuments_id s' (ev_id (Event_find_sorted s ! k)))"
proof -
  from ok have eq: "map (\<lambda>(k, event). count_registrations (counts k) event)
      (enumerate 0 (Event_find_sorted s)) = map Inr items"
    by (auto simp: get_events_def server_error_def Let_def split: sum.splits
        dest!: promise_all_InrD)
  then show len: "length items = length (Event_find_sorted s)"
    by (metis length_enumerate length_map)
  assume k: "k < length items"
  with eq len have "(map (\<lambda>(k, event). count_registrations (counts k) event)
      (enumerate 0 (Event_find_sorted s))) ! k = Inr (items ! k)"
    by simp
  with k len have "count_registrations (counts k) (Event_find_sorted s ! k) = Inr (items ! k)"
    by (simp add: nth_enumerate_eq)
  then show "\<exists>s'. counts k = Sees s' \<and>
      items ! k = with_registrations (Event_find_sorted s ! k)
        (Event_countDocuments_id s' (ev_id (Event_find_sorted s ! k)))"
    by (auto simp: count_registrations_def split: call.splits)
qed

lemma get_events_statuses:
  assumes ok: "get_events (Sees s) counts = Response 200 (EventList items)"
  shows "map (\<lambda>x. (ev_id x, status x)) items =
         map (\<lambda>x. (ev_id x, status x)) (Event_find_sorted s)"
proof (rule nth_equalityI)
  show "length (map (\<lambda>x. (ev_id x, status x)) items) =
        length (map (\<lambda>x. (ev_id x, status x)) (Event_find_sorted s))"
    using get_events_item_nth(1)[OF ok] by simp
next
  fix k assume "k < length (map (\<lambda>x. (ev_id x, status x)) items)"
  then have k: "k < length items" by simp
  from get_events_item_nth(2)[OF ok k] obtain n where
    "items ! k = with_registrations (Event_find_sorted s ! k) n"
    by blast
  with k get_events_item_nth(1)[OF ok]
  show "map (\<lambda>x. (ev_id x, status x)) items ! k =
        map (\<lambda>x. (ev_id x, status x)) (Event_find_sorted s) ! k"
    by (simp add: with_registrations_def)
qed

lemma get_events_resolved:
  assumes "\<forall>k<length (events s). \<exists>s'. counts k = Sees s'"
  shows "\<exists>items. get_events (Sees s) counts = Response 200 (EventList items) \<and>
           length items = length (events s)"
proof -
  let ?rs = "map (\<lambda>(k, event). count_registrations (counts k) event)
               (enumerate 0 (Event_find_sorted s))"
  have len: "length (Event_find_sorted s) = length (events s)"
    by (simp add: Event_find_sorted_def length_sort_desc)
  have "\<forall>r\<in>set ?rs. \<exists>v. r = Inr v"
  proof
    fix r assume "r \<in> set ?rs"
    then obtain k e where "(k, e) \<in> set (enumerate 0 (Event_find_sorted s))"
      and r: "r = count_registrations (counts k) e"
      by auto
    then have "k < length (events s)"
      using len by (simp add: in_set_enumerate_eq)
    with assms obtain s' where "counts k = Sees s'" by blast
    with r show "\<exists>v. r = Inr v" by (simp add: count_registrations_def)
  qed
  then obtain items where items: "?rs = map Inr items"
    using ex_map_conv[of ?rs Inr] by blast
  then have "length items = length (events s)"
    using len by (metis length_enumerate length_map)
  moreover have "get_events (Sees s) counts = Response 200 (EventList items)"
    using items by (simp add: get_events_def Let_def promise_all_map_Inr)
  ultimately show ?thesis by blast
qed

lemma get_events_rejected:
  assumes k: "k < length (events s)" and rej: "counts k = Rejects err"
  shows "get_events (Sees s) counts = Response 500 (Message ''Server error'')"
proof -
  let ?es = "Event_find_sorted s"
  let ?rs = "map (\<lambda>(k, event). count_registrations (counts k) event) (enumerate 0 ?es)"
  have len: "length ?es = length (events s)"
    by (simp add: Event_find_sorted_def length_sort_desc)
  with k have "(k, ?es ! k) \<in> set (enumerate 0 ?es)"
    by (simp add: in_set_enumerate_eq)
  then have "count_registrations (counts k) (?es ! k) \<in> set ?rs"
    by force
  moreover from rej have "count_registrations (counts k) (?es ! k) = Inl err"
    by (simp add: count_registrations_def)
  ultimately have "\<exists>r\<in>set ?rs. \<exists>e. r = Inl e"
    by metis
  then obtain e where "promise_all ?rs = Inl e"
    using promise_all_Inl_iff[of ?rs] by blast
  then show ?thesis
    by (simp add: get_events_def Let_def server_error_def)
qed

lemma get_events_all_Sees:
  "get_events_all (Sees s) =
     Response 200 (SuccessEvents (length (events s))
       (map (\<lambda>e. (populate (users s) e, registrationCount (populate (users s) e)))
          (Event_find_sorted s)))"
  by (simp add: get_events_all_def Let_def Event_find_sorted_def length_sort_desc comp_def)

text \<open>
  Claim C1. Every event of a successful \<^verbatim>\<open>GET /events\<close> response carries under
  \<^verbatim>\<open>registrations\<close> the number of documents of the events collection whose id is the
  event's own id, counted on the state its count query sees. With ids unique in the
  collection that number is 0 or 1, and it is 1 when the event is still in the collection
  at that moment.
\<close>

theorem get_events_registrations_zero_or_one:
  assumes ok: "get_events (Sees s) counts = Response 200 (EventList items)"
    and k: "k < length items"
    and uniq: "\<forall>j s'. counts j = Sees s' \<longrightarrow> distinct (map ev_id (events s'))"
  shows "\<exists>s'. counts k = Sees s' \<and>
           ev_id (items ! k) = ev_id (Event_find_sorted s ! k) \<and>
           registrations (items ! k) = Event_countDocuments_id s' (ev_id (items ! k)) \<and>
           (registrations (items ! k) = 0 \<or> registrations (items ! k) = 1) \<and>
           (ev_id (items ! k) \<in> ev_id ` set (events s') \<longrightarrow> registrations (items ! k) = 1)"
proof -
  from get_events_item_nth(2)[OF ok k] obtain s' where s': "counts k = Sees s'"
    and it: "items ! k = with_registrations (Event_find_sorted s ! k)
               (Event_countDocuments_id s' (ev_id (Event_find_sorted s ! k)))"
    by blast
  from it have id: "ev_id (items ! k) = ev_id (Event_find_sorted s ! k)"
    and reg: "registrations (items ! k) = Event_countDocuments_id s' (ev_id (items ! k))"
    by (simp_all add: with_registrations_def)
  from uniq s' have "distinct (map ev_id (events s'))" by blast
  then have "Event_countDocuments_id s' (ev_id (items ! k)) =
      (if ev_id (items ! k) \<in> ev_id ` set (events s') then 1 else 0)"
    unfolding Event_countDocuments_id_def by (rule count_by_id_distinct)
  with s' id reg show ?thesis by auto
qed

theorem get_events_registrations_zero_or_one_witness:
  "get_events (Sees sample_db) sample_counts =
     Response 200 (EventList
       [with_registrations (meetup ''e2'' 9 [\<lparr>user = ''u1'', details = ''paid''\<rparr>]) 1,
        with_registrations (meetup ''e1'' 5 []) 0]) \<and>
   ''e2'' \<in> ev_id ` set (events sample_db) \<and>
   ''e1'' \<notin> ev_id ` set [meetup ''e2'' 9 [\<lparr>user = ''u1'', details = ''paid''\<rparr>]]"
proof -
  let ?items = "[with_registrations (meetup ''e2'' 9 [\<lparr>user = ''u1'', details = ''paid''\<rparr>]) 1,
        with_registrations (meetup ''e1'' 5 []) 0]"
  have ok: "get_events (Sees sample_db) sample_counts = Response 200 (EventList ?items)"
    by (simp add: get_events_def Event_find_sorted_def sort_desc_def sample_db_def meetup_def
        sample_counts_def count_registrations_def Event_countDocuments_id_def Let_def
        enumerate_eq_zip upt_rec[of 0] upt_rec[of 1])
  have k: "1 < length ?items" by simp
  have uniq: "\<forall>j s'. sample_counts j = Sees s' \<longrightarrow> distinct (map ev_id (events s'))"
    by (auto simp: sample_counts_def sample_db_def meetup_def)
  from get_events_registrations_zero_or_one[OF ok k uniq] ok show ?thesis
    by (simp add: sample_db_def meetup_def)
qed

text \<open>
  Claim C8. \<^verbatim>\<open>GET /events\<close> answers all or nothing. When the count query of every
  event resolves, the response is 200 with one item per event. When the count query of
  some event rejects, or the listing itself rejects, the response is 500 with
  \<^verbatim>\<open>{message: 'Server error'}\<close> and carries no item.
\<close>

theorem get_events_all_or_nothing:
  "((\<forall>k<length (events s). \<exists>s'. counts k = Sees s') \<longrightarrow>
      (\<exists>items. get_events (Sees s) counts = Response 200 (EventList items) \<and>
         length items = length (events s))) \<and>
   ((\<exists>k<length (events s). \<exists>err. counts k = Rejects err) \<longrightarrow>
      get_events (Sees s) counts = Response 500 (Message ''Server error'')) \<and>
   get_events (Rejects err0) counts = Response 500 (Message ''Server error'')"
  using get_events_resolved[of s counts] get_events_rejected[of _ s counts]
  by (auto simp: get_events_def server_error_def)

theorem get_events_all_or_nothing_witness:
  "sample_counts 0 = Sees sample_db \<and>
   (\<exists>s'. sample_counts 1 = Sees s') \<and>
   (\<exists>items. get_events (Sees sample_db) sample_counts = Response 200 (EventList items) \<and>
      length items = 2) \<and>
   failing_counts 1 = Rejects (Error ''connection lost'') \<and>
   get_events (Sees sample_db) failing_counts = Response 500 (Message ''Server error'')"
proof -
  have all: "\<forall>k<length (events sample_db). \<exists>s'. sample_counts k = Sees s'"
    by (simp add: sample_counts_def)
  have some: "\<exists>k<length (events sample_db). \<exists>err. failing_counts k = Rejects err"
    by (rule exI[of _ 1]) (simp add: failing_counts_def sample_db_def)
  have len: "length (events sample_db) = 2" by (simp add: sample_db_def)
  from get_events_all_or_nothing[of sample_db sample_counts]
    get_events_all_or_nothing[of sample_db failing_counts] all some len
  show ?thesis by (simp add: sample_counts_def failing_counts_def)
qed

text \<open>
  Claim C3. \<^verbatim>\<open>POST /events\<close> and \<^verbatim>\<open>PUT /events/:id\<close> persist the status
  \<^verbatim>\<open>'upcoming'\<close> when the supplied date is an instant strictly after the clock's reading
  at the write, and \<^verbatim>\<open>'past'\<close> otherwise, the instant equal to the reading included. The
  listings take no clock: both return every event with the status that is stored.
\<close>

theorem event_status_fixed_at_write:
  "(\<exists>e. post_events None new_id now b s =
          (Response 201 (EventBody e), s\<lparr>events := events s @ [e]\<rparr>) \<and>
        status e = (if \<exists>t. req_date b = Instant t \<and> now < t then ''upcoming'' else ''past'')) \<and>
   ((\<exists>x\<in>set (events s). ev_id x = i) \<longrightarrow>
      (\<exists>e s'. put_events_id None i now b s = (Response 200 (EventBody e), s') \<and>
         e \<in> set (events s') \<and> ev_id e = i \<and>
         status e = (if \<exists>t. req_date b = Instant t \<and> now < t then ''upcoming'' else ''past''))) \<and>
   (get_events (Sees s) counts = Response 200 (EventList items) \<longrightarrow>
      map (\<lambda>x. (ev_id x, status x)) items =
      map (\<lambda>x. (ev_id x, status x)) (Event_find_sorted s)) \<and>
   (\<exists>n data. get_events_all (Sees s) = Response 200 (SuccessEvents n data) \<and>
      map (\<lambda>(x, c). (ev_id x, status x)) data =
      map (\<lambda>x. (ev_id x, status x)) (Event_find_sorted s))"
proof (intro conjI impI)
  show "\<exists>e. post_events None new_id now b s =
          (Response 201 (EventBody e), s\<lparr>events := events s @ [e]\<rparr>) \<and>
        status e = (if \<exists>t. req_date b = Instant t \<and> now < t then ''upcoming'' else ''past'')"
    by (simp add: post_events_def Let_def new_Event_def derive_status_eq)
next
  assume "\<exists>x\<in>set (events s). ev_id x = i"
  then obtain d ys where fu: "find_and_update (\<lambda>e. ev_id e = i)
      (apply_event_update b (derive_status (req_date b) now)) (events s) = Some (d, ys)"
    using find_and_update_None[of "\<lambda>e. ev_id e = i" _ "events s"] by fastforce
  from find_and_update_Some[OF fu] obtain pre x post where
    "ev_id x = i" "d = apply_event_update b (derive_status (req_date b) now) x"
    "ys = pre @ d # post"
    by blast
  then have "d \<in> set ys" "ev_id d = i"
    "status d = (if \<exists>t. req_date b = Instant t \<and> now < t then ''upcoming'' else ''past'')"
    by (simp_all add: apply_event_update_def derive_status_eq)
  moreover from fu have
    "put_events_id None i now b s = (Response 200 (EventBody d), s\<lparr>events := ys\<rparr>)"
    by (simp add: put_events_id_def)
  ultimately show "\<exists>e s'. put_events_id None i now b s = (Response 200 (EventBody e), s') \<and>
         e \<in> set (events s') \<and> ev_id e = i \<and>
         status e = (if \<exists>t. req_date b = Instant t \<and> now < t then ''upcoming'' else ''past'')"
    by force
next
  assume "get_events (Sees s) counts = Response 200 (EventList items)"
  then show "map (\<lambda>x. (ev_id x, status x)) items =
      map (\<lambda>x. (ev_id x, status x)) (Event_find_sorted s)"
    by (rule get_events_statuses)
next
  show "\<exists>n data. get_events_all (Sees s) = Response 200 (SuccessEvents n data) \<and>
      map (\<lambda>(x, c). (ev_id x, status x)) data =
      map (\<lambda>x. (ev_id x, status x)) (Event_find_sorted s)"
    by (simp add: get_events_all_Sees comp_def populate_def)
qed

theorem event_status_fixed_at_write_witness:
  "post_events None ''e3'' 99 sample_body sample_db =
     (Response 201 (EventBody (new_Event ''e3'' sample_body ''upcoming'')),
      sample_db\<lparr>events := events sample_db @ [new_Event ''e3'' sample_body ''upcoming'']\<rparr>) \<and>
   post_events None ''e3'' 100 sample_body sample_db =
     (Response 201 (EventBody (new_Event ''e3'' sample_body ''past'')),
      sample_db\<lparr>events := events sample_db @ [new_Event ''e3'' sample_body ''past'']\<rparr>) \<and>
   (\<exists>x\<in>set (events sample_db). ev_id x = ''e1'') \<and>
   fst (put_events_id None ''e1'' 99 sample_body sample_db) =
     Response 200 (EventBody (apply_event_update sample_body ''upcoming'' (meetup ''e1'' 5 []))) \<and>
   get_events (Sees sample_db) sample_counts =
     Response 200 (EventList
       [with_registrations (meetup ''e2'' 9 [\<lparr>user = ''u1'', details = ''paid''\<rparr>]) 1,
        with_registrations (meetup ''e1'' 5 []) 0]) \<and>
   map status (Event_find_sorted sample_db) = [''past'', ''past'']"
proof -
  let ?items = "[with_registrations (meetup ''e2'' 9 [\<lparr>user = ''u1'', details = ''paid''\<rparr>]) 1,
        with_registrations (meetup ''e1'' 5 []) 0]"
  have ex: "\<exists>x\<in>set (events sample_db). ev_id x = ''e1''"
    by (simp add: sample_db_def meetup_def)
  have ok: "get_events (Sees sample_db) sample_counts = Response 200 (EventList ?items)"
    by (simp add: get_events_def Event_find_sorted_def sort_desc_def sample_db_def meetup_def
        sample_counts_def count_registrations_def Event_countDocuments_id_def Let_def
        enumerate_eq_zip upt_rec[of 0] upt_rec[of 1])
  have date: "req_date sample_body = Instant 100" by (simp add: sample_body_def)
  have srt: "map status (Event_find_sorted sample_db) = [''past'', ''past'']"
    by (simp add: Event_find_sorted_def sort_desc_def sample_db_def meetup_def)
  have put: "fst (put_events_id None ''e1'' 99 sample_body sample_db) =
     Response 200 (EventBody (apply_event_update sample_body ''upcoming'' (meetup ''e1'' 5 [])))"
    by (simp add: put_events_id_def sample_db_def meetup_def derive_status_def sample_body_def)
  have post1: "post_events None ''e3'' 99 sample_body sample_db =
     (Response 201 (EventBody (new_Event ''e3'' sample_body ''upcoming'')),
      sample_db\<lparr>events := events sample_db @ [new_Event ''e3'' sample_body ''upcoming'']\<rparr>)"
    by (simp add: post_events_def Let_def derive_status_def sample_body_def)
  have post2: "post_events None ''e3'' 100 sample_body sample_db =
     (Response 201 (EventBody (new_Event ''e3'' sample_body ''past'')),
      sample_db\<lparr>events := events sample_db @ [new_Event ''e3'' sample_body ''past'']\<rparr>)"
    by (simp add: post_events_def Let_def derive_status_def sample_body_def)
  from event_status_fixed_at_write[of "''e3''" 99 sample_body sample_db "''e1''" sample_counts ?items]
    ex ok srt put post1 post2
  show ?thesis by blast
qed

text \<open>
  Claim C10. In a 200 response of \<^verbatim>\<open>GET /events/all\<close> the \<^verbatim>\<open>count\<close> is the length of
  \<^verbatim>\<open>data\<close>, which is the number of events; in a 200 response of
  \<^verbatim>\<open>GET /events/:id/registrations\<close> the \<^verbatim>\<open>count\<close> is the length of the registrations in
  \<^verbatim>\<open>data\<close>.
\<close>

theorem response_count_is_length:
  "(get_events_all found = Response 200 b \<longrightarrow>
      (\<exists>s n data. found = Sees s \<and> b = SuccessEvents n data \<and> n = length data \<and>
         n = length (events s))) \<and>
   (get_events_id_registrations found i = Response 200 b' \<longrightarrow>
      (\<exists>n rs. b' = SuccessRegistrations n rs \<and> n = length rs))"
  by (auto simp: get_events_all_Sees get_events_all_def get_events_id_registrations_def
      length_sort_desc Event_find_sorted_def
      split: call.splits option.splits)

theorem response_count_is_length_witness:
  "(\<exists>data. get_events_all (Sees sample_db) = Response 200 (SuccessEvents 2 data) \<and>
      length data = 2) \<and>
   get_events_id_registrations (Sees sample_db) ''e2'' =
     Response 200 (SuccessRegistrations 1
       [\<lparr>user = Some (project_user (member ''u1'' ''Test User'' ''a@x.com'' ''R1'' 1)),
         details = ''paid''\<rparr>])"
proof -
  let ?b = "SuccessEvents (length (events sample_db))
       (map (\<lambda>e. (populate (users sample_db) e, registrationCount (populate (users sample_db) e)))
          (Event_find_sorted sample_db))"
  let ?b' = "SuccessRegistrations 1
       [\<lparr>user = Some (project_user (member ''u1'' ''Test User'' ''a@x.com'' ''R1'' 1)),
         details = ''paid''\<rparr>]"
  have all: "get_events_all (Sees sample_db) = Response 200 ?b"
    by (rule get_events_all_Sees)
  have regs: "get_events_id_registrations (Sees sample_db) ''e2'' = Response 200 ?b'"
    by (simp add: get_events_id_registrations_def sample_db_def meetup_def populate_def
        populate_registration_def member_def)
  have len: "length (events sample_db) = 2" by (simp add: sample_db_def)
  from response_count_is_length[of "Sees sample_db" ?b "''e2''" ?b'] all regs len
  show ?thesis by auto
qed

text \<open>
  Claim C6. An event created by \<^verbatim>\<open>POST /events\<close> under an id that is new to the
  collection is in the \<^verbatim>\<open>data\<close> of a \<^verbatim>\<open>GET /events/all\<close> that reads the store right
  after, with \<^verbatim>\<open>registrationCount\<close> 0 and an empty \<^verbatim>\<open>registrations\<close> array.
\<close>

theorem created_event_roundtrip:
  assumes fresh: "new_id \<notin> ev_id ` set (events s)"
  shows "\<exists>e s' n data.
           post_events None new_id now b s = (Response 201 (EventBody e), s') \<and>
           ev_id e = new_id \<and>
           get_events_all (Sees s') = Response 200 (SuccessEvents n data) \<and>
           (\<exists>item\<in>set data. ev_id (fst item) = new_id) \<and>
           (\<forall>item\<in>set data. ev_id (fst item) = new_id \<longrightarrow>
              snd item = 0 \<and> registrations (fst item) = Some [])"
proof -
  let ?e = "new_Event new_id b (derive_status (req_date b) now)"
  let ?s' = "s\<lparr>events := events s @ [?e]\<rparr>"
  let ?data = "map (\<lambda>e. (populate (users ?s') e, registrationCount (populate (users ?s') e)))
                 (Event_find_sorted ?s')"
  have post: "post_events None new_id now b s = (Response 201 (EventBody ?e), ?s')"
    by (simp add: post_events_def Let_def)
  have id: "ev_id ?e = new_id" by (simp add: new_Event_def)
  have get: "get_events_all (Sees ?s') = Response 200 (SuccessEvents (length (events ?s')) ?data)"
    by (rule get_events_all_Sees)
  have set_sorted: "set (Event_find_sorted ?s') = insert ?e (set (events s))"
    by (simp add: Event_find_sorted_def set_sort_desc)
  have ex: "\<exists>item\<in>set ?data. ev_id (fst item) = new_id"
    using set_sorted id by (auto simp: populate_def)
  have all: "\<forall>item\<in>set ?data. ev_id (fst item) = new_id \<longrightarrow>
              snd item = 0 \<and> registrations (fst item) = Some []"
  proof
    fix item assume "item \<in> set ?data"
    then obtain x where x: "x \<in> insert ?e (set (events s))"
      and item: "item = (populate (users ?s') x, registrationCount (populate (users ?s') x))"
      using set_sorted by auto
    show "ev_id (fst item) = new_id \<longrightarrow> snd item = 0 \<and> registrations (fst item) = Some []"
    proof
      assume "ev_id (fst item) = new_id"
      with item have "ev_id x = new_id" by (simp add: populate_def)
      with x fresh have "x = ?e" by auto
      with item show "snd item = 0 \<and> registrations (fst item) = Some []"
        by (simp add: populate_def registrationCount_def new_Event_def)
    qed
  qed
  from post id get ex all show ?thesis by blast
qed

theorem created_event_roundtrip_witness:
  "''e3'' \<notin> ev_id ` set (events sample_db) \<and>
   (\<exists>e s' n data.
      post_events None ''e3'' 99 sample_body sample_db = (Response 201 (EventBody e), s') \<and>
      get_events_all (Sees s') = Response 200 (SuccessEvents n data) \<and>
      (\<exists>item\<in>set data. ev_id (fst item) = ''e3'' \<and> snd item = 0 \<and>
         registrations (fst item) = Some []))"
proof -
  have fresh: "''e3'' \<notin> ev_id ` set (events sample_db)"
    by (simp add: sample_db_def meetup_def)
  from created_event_roundtrip[OF fresh, of 99 sample_body] fresh
  show ?thesis by blast
qed

subsection \<open>Deleting an event\<close>

text \<open>
  Claim C7. When no event has the id, \<^verbatim>\<open>DELETE /events/:id\<close> answers 404 with
  \<^verbatim>\<open>{message: 'Event not found'}\<close> and the store is the one before. When an event has
  the id, the answer is 200 with the success message, that one event is gone from the
  collection and every other event and every user is as before.
\<close>

theorem delete_event_frame:
  "((\<forall>e\<in>set (events s). ev_id e \<noteq> i) \<longrightarrow>
      delete_events_id None i s = (Response 404 (Message ''Event not found''), s)) \<and>
   ((\<exists>e\<in>set (events s). ev_id e = i) \<longrightarrow>
      (\<exists>pre e post.
         events s = pre @ e # post \<and> (\<forall>y\<in>set pre. ev_id y \<noteq> i) \<and> ev_id e = i \<and>
         delete_events_id None i s =
           (Response 200 (Message ''Event deleted successfully''),
            \<lparr>events = pre @ post, users = users s\<rparr>)))"
proof (intro conjI impI)
  assume "\<forall>e\<in>set (events s). ev_id e \<noteq> i"
  then have "find_and_delete (\<lambda>e. ev_id e = i) (events s) = None"
    by (simp add: find_and_delete_None)
  then show "delete_events_id None i s = (Response 404 (Message ''Event not found''), s)"
    by (simp add: delete_events_id_def)
next
  assume "\<exists>e\<in>set (events s). ev_id e = i"
  then obtain d ys where fd: "find_and_delete (\<lambda>e. ev_id e = i) (events s) = Some (d, ys)"
    using find_and_delete_None[of "\<lambda>e. ev_id e = i" "events s"] by fastforce
  from find_and_delete_Some[OF fd] obtain pre post where dec:
    "events s = pre @ d # post" "\<forall>y\<in>set pre. ev_id y \<noteq> i" "ev_id d = i" "ys = pre @ post"
    by blast
  from fd dec have "delete_events_id None i s =
      (Response 200 (Message ''Event deleted successfully''),
       \<lparr>events = pre @ post, users = users s\<rparr>)"
    by (cases s) (simp add: delete_events_id_def)
  with dec show "\<exists>pre e post.
         events s = pre @ e # post \<and> (\<forall>y\<in>set pre. ev_id y \<noteq> i) \<and> ev_id e = i \<and>
         delete_events_id None i s =
           (Response 200 (Message ''Event deleted successfully''),
            \<lparr>events = pre @ post, users = users s\<rparr>)"
    by blast
qed

theorem delete_event_frame_witness:
  "(\<exists>e\<in>set (events sample_db). ev_id e = ''e1'') \<and>
   delete_events_id None ''e1'' sample_db =
     (Response 200 (Message ''Event deleted successfully''),
      \<lparr>events = [meetup ''e2'' 9 [\<lparr>user = ''u1'', details = ''paid''\<rparr>]],
       users = users sample_db\<rparr>) \<and>
   ''e7'' \<notin> ev_id ` set (events sample_db) \<and>
   delete_events_id None ''e7'' sample_db =
     (Response 404 (Message ''Event not found''), sample_db)"
proof -
  have found: "\<exists>e\<in>set (events sample_db). ev_id e = ''e1''"
    by (simp add: sample_db_def meetup_def)
  have missing: "\<forall>e\<in>set (events sample_db). ev_id e \<noteq> ''e7''"
    by (simp add: sample_db_def meetup_def)
  have del: "delete_events_id None ''e1'' sample_db =
     (Response 200 (Message ''Event deleted successfully''),
      \<lparr>events = [meetup ''e2'' 9 [\<lparr>user = ''u1'', details = ''paid''\<rparr>]],
       users = users sample_db\<rparr>)"
    by (simp add: delete_events_id_def sample_db_def meetup_def)
  from delete_event_frame[of sample_db "''e7''"] delete_event_frame[of sample_db "''e1''"]
    found missing del
  show ?thesis by auto
qed

subsection \<open>Changing a user's role\<close>

text \<open>
  Claim C2. A role that is not one of \<^verbatim>\<open>'user'\<close>, \<^verbatim>\<open>'admin'\<close>, \<^verbatim>\<open>'superadmin'\<close> is
  answered with 400 and \<^verbatim>\<open>{success: false, message}\<close>, whatever the id and whatever the
  store would do, and the store is the one before. With one of the three roles and a user
  of that id, that user's role is set in the store and the answer is 200 with the updated
  user without its password; with no user of that id the answer is 404 with
  \<^verbatim>\<open>{success: false, message}\<close>.
\<close>

theorem role_update_validated:
  "(\<not> array_includes [''user'', ''admin'', ''superadmin''] new_role \<longrightarrow>
      put_users_id_role fault i new_role s =
        (Response 400 (Failure ''Invalid role specified''), s)) \<and>
   (r \<in> {''user'', ''admin'', ''superadmin''} \<and> (\<exists>u\<in>set (users s). user_id u = i) \<longrightarrow>
      (\<exists>pre u post.
         users s = pre @ u # post \<and> (\<forall>y\<in>set pre. user_id y \<noteq> i) \<and> user_id u = i \<and>
         put_users_id_role None i (Some r) s =
           (Response 200 (SuccessUser (u\<lparr>role := r, password := None\<rparr>)),
            s\<lparr>users := pre @ u\<lparr>role := r\<rparr> # post\<rparr>))) \<and>
   (r \<in> {''user'', ''admin'', ''superadmin''} \<and> (\<forall>u\<in>set (users s). user_id u \<noteq> i) \<longrightarrow>
      put_users_id_role None i (Some r) s = (Response 404 (Failure ''User not found''), s))"
proof (intro conjI impI)
  assume "\<not> array_includes [''user'', ''admin'', ''superadmin''] new_role"
  then show "put_users_id_role fault i new_role s =
      (Response 400 (Failure ''Invalid role specified''), s)"
    by (simp add: put_users_id_role_def)
next
  assume a: "r \<in> {''user'', ''admin'', ''superadmin''} \<and> (\<exists>u\<in>set (users s). user_id u = i)"
  then have valid: "array_includes [''user'', ''admin'', ''superadmin''] (Some r)"
    by (auto simp: array_includes_def)
  from a obtain d ys where fu:
    "find_and_update (\<lambda>u. user_id u = i) (\<lambda>u. u\<lparr>role := r\<rparr>) (users s) = Some (d, ys)"
    using find_and_update_None[of "\<lambda>u. user_id u = i" _ "users s"] by fastforce
  from find_and_update_Some[OF fu] obtain pre u post where dec:
    "users s = pre @ u # post" "\<forall>y\<in>set pre. user_id y \<noteq> i" "user_id u = i"
    "d = u\<lparr>role := r\<rparr>" "ys = pre @ u\<lparr>role := r\<rparr> # post"
    by blast
  from valid fu dec have "put_users_id_role None i (Some r) s =
      (Response 200 (SuccessUser (u\<lparr>role := r, password := None\<rparr>)),
       s\<lparr>users := pre @ u\<lparr>role := r\<rparr> # post\<rparr>)"
    by (simp add: put_users_id_role_def select_no_password_def)
  with dec show "\<exists>pre u post.
         users s = pre @ u # post \<and> (\<forall>y\<in>set pre. user_id y \<noteq> i) \<and> user_id u = i \<and>
         put_users_id_role None i (Some r) s =
           (Response 200 (SuccessUser (u\<lparr>role := r, password := None\<rparr>)),
            s\<lparr>users := pre @ u\<lparr>role := r\<rparr> # post\<rparr>)"
    by blast
next
  assume a: "r \<in> {''user'', ''admin'', ''superadmin''} \<and> (\<forall>u\<in>set (users s). user_id u \<noteq> i)"
  then have valid: "array_includes [''user'', ''admin'', ''superadmin''] (Some r)"
    by (auto simp: array_includes_def)
  from a have "find_and_update (\<lambda>u. user_id u = i) (\<lambda>u. u\<lparr>role := r\<rparr>) (users s) = None"
    by (simp add: find_and_update_None)
  with valid show "put_users_id_role None i (Some r) s =
      (Response 404 (Failure ''User not found''), s)"
    by (simp add: put_users_id_role_def)
qed

theorem role_update_validated_witness:
  "put_users_id_role (Some (Error ''connection lost'')) ''u9'' (Some ''root'') sample_db =
     (Response 400 (Failure ''Invalid role specified''), sample_db) \<and>
   put_users_id_role None ''u2'' None sample_db =
     (Response 400 (Failure ''Invalid role specified''), sample_db) \<and>
   (\<exists>u\<in>set (users sample_db). user_id u = ''u2'') \<and>
   put_users_id_role None ''u2'' (Some ''admin'') sample_db =
     (Response 200 (SuccessUser
        ((member ''u2'' ''Bob'' ''test@x.com'' ''R2'' 2)\<lparr>role := ''admin'', password := None\<rparr>)),
      sample_db\<lparr>users :=
        [member ''u1'' ''Test User'' ''a@x.com'' ''R1'' 1,
         (member ''u2'' ''Bob'' ''test@x.com'' ''R2'' 2)\<lparr>role := ''admin''\<rparr>,
         member ''u3'' ''Cy'' ''c@x.com'' ''TEST123'' 3,
         member ''u4'' ''Dee'' ''d@x.com'' ''R4'' 4]\<rparr>) \<and>
   put_users_id_role None ''u9'' (Some ''user'') sample_db =
     (Response 404 (Failure ''User not found''), sample_db)"
proof -
  have bad: "\<not> array_includes [''user'', ''admin'', ''superadmin''] (Some ''root'')"
    "\<not> array_includes [''user'', ''admin'', ''superadmin''] None"
    by (simp_all add: array_includes_def)
  have good: "''admin'' \<in> {''user'', ''admin'', ''superadmin''}"
    "''user'' \<in> {''user'', ''admin'', ''superadmin''}"
    by simp_all
  have found: "\<exists>u\<in>set (users sample_db). user_id u = ''u2''"
    by (simp add: sample_db_def member_def)
  have missing: "\<forall>u\<in>set (users sample_db). user_id u \<noteq> ''u9''"
    by (simp add: sample_db_def member_def)
  have upd: "put_users_id_role None ''u2'' (Some ''admin'') sample_db =
     (Response 200 (SuccessUser
        ((member ''u2'' ''Bob'' ''test@x.com'' ''R2'' 2)\<lparr>role := ''admin'', password := None\<rparr>)),
      sample_db\<lparr>users :=
        [member ''u1'' ''Test User'' ''a@x.com'' ''R1'' 1,
         (member ''u2'' ''Bob'' ''test@x.com'' ''R2'' 2)\<lparr>role := ''admin''\<rparr>,
         member ''u3'' ''Cy'' ''c@x.com'' ''TEST123'' 3,
         member ''u4'' ''Dee'' ''d@x.com'' ''R4'' 4]\<rparr>)"
    by (simp add: put_users_id_role_def array_includes_def sample_db_def member_def
        select_no_password_def)
  from role_update_validated[of "Some ''root''" "Some (Error ''connection lost'')" "''u9''" sample_db "''user''"]
    role_update_validated[of None None "''u2''" sample_db "''admin''"]
    bad good found missing upd
  show ?thesis by simp
qed

subsection \<open>The user listing\<close>

lemma digit_char: "d < 10 \<Longrightarrow> is_digit (char_of (48 + d)) \<and> (of_char (char_of (48 + d) :: char) :: nat) - 48 = d"
  by (simp add: is_digit_def Let_def)

lemma digits_value_snoc:
  "digits_value (s @ [c]) = 10 * digits_value s + ((of_char c :: nat) - 48)"
  by (simp add: digits_value_def)

lemma decimal_digits: "list_all is_digit (decimal n) \<and> decimal n \<noteq> [] \<and> digits_value (decimal n) = n"
proof (induction n rule: decimal.induct)
  case (1 n)
  show ?case
  proof (cases "n < 10")
    case True
    then show ?thesis
      using digit_char[of n] by (subst (1 2 3) decimal.simps) (simp add: digits_value_def)
  next
    case False
    with 1 have ih: "list_all is_digit (decimal (n div 10))" "digits_value (decimal (n div 10)) = n div 10"
      by simp_all
    have d: "is_digit (char_of (48 + n mod 10))" "(of_char (char_of (48 + n mod 10) :: char) :: nat) - 48 = n mod 10"
      using digit_char[of "n mod 10"] by simp_all
    have eq: "decimal n = decimal (n div 10) @ [char_of (48 + n mod 10)]"
      using False by (subst decimal.simps) simp
    show ?thesis
      unfolding eq using ih d by (simp add: digits_value_snoc)
  qed
qed

lemma signed_numeral_decimal: "signed_numeral (decimal n) = Some (False, n)"
proof -
  obtain c cs where eq: "decimal n = c # cs"
    using decimal_digits[of n] by (cases "decimal n") auto
  have un: "unsigned_numeral (c # cs)" and v: "digits_value (c # cs) = n"
    using decimal_digits[of n] eq by (simp_all add: unsigned_numeral_def)
  then have "is_digit c" by (simp add: unsigned_numeral_def)
  then have "c \<noteq> CHR ''-''" "c \<noteq> CHR ''+''"
    by (auto simp: is_digit_def)
  with un v show ?thesis unfolding eq by simp
qed

lemma decimal_number:
  assumes "int n \<le> MAX_SAFE_INTEGER"
  shows "ToNumber env (Text (decimal n)) = Fin (of_nat n)"
    and "parseInt env (Text (decimal n)) = Fin (of_nat n)"
  using assms decimal_digits[of n]
  by (simp_all add: StringToNumber_def signed_numeral_decimal signed_value_def)

lemma safe_integer_of_int: "safe_integer (of_int k) \<longleftrightarrow> \<bar>k\<bar> \<le> MAX_SAFE_INTEGER"
  by (simp add: safe_integer_def flip: of_int_abs)

lemma safe_integer_of_nat: "safe_integer (of_nat n) \<longleftrightarrow> int n \<le> MAX_SAFE_INTEGER"
  using safe_integer_of_int[of "int n"] by simp

lemma js_minus_one_nat:
  assumes "1 \<le> n" and "int n \<le> MAX_SAFE_INTEGER"
  shows "js_minus_one env (Fin (of_nat n)) = Fin (of_nat (n - 1))"
proof -
  from assms have eq: "(of_nat n :: rat) - 1 = of_nat (n - 1)" by (simp add: of_nat_diff)
  from assms have "int (n - 1) \<le> MAX_SAFE_INTEGER" by simp
  then have "safe_integer (of_nat (n - 1))"
    by (simp only: safe_integer_of_nat)
  then show ?thesis
    by (simp only: js_minus_one.simps eq js_round_def if_True)
qed

lemma js_times_nat:
  assumes "int (a * b) \<le> MAX_SAFE_INTEGER"
  shows "js_times env (Fin (of_nat a)) (Fin (of_nat b)) = Fin (of_nat (a * b))"
proof (cases "a = 0 \<or> b = 0")
  case True
  then show ?thesis by (auto simp: js_times_def)
next
  case False
  from assms have "safe_integer (of_nat (a * b))"
    by (simp only: safe_integer_of_nat)
  then have "safe_integer (of_nat a * of_nat b)" by simp
  with False show ?thesis by (simp add: js_times_def js_round_def)
qed

lemma skip_limit_nat:
  assumes "int k \<le> MAX_SAFE_INTEGER" and "int l \<le> MAX_SAFE_INTEGER"
  shows "skip_limit env (Fin (of_nat k)) (Fin (of_nat l)) xs =
           Inr (if l = 0 then drop k xs else take l (drop k xs))"
  using assms by (simp add: skip_limit_def safe_integer_of_nat)

lemma ceil_div_nat:
  assumes "1 \<le> l" and "int l \<le> MAX_SAFE_INTEGER" and "int n \<le> MAX_SAFE_INTEGER"
  shows "ceil_div env n (Fin (of_nat l)) = Fin (of_int \<lceil>(of_nat n :: rat) / of_nat l\<rceil>)"
proof (cases "n = 0")
  case True
  with assms show ?thesis
    by (simp add: ceil_div_def safe_integer_of_nat js_divide_def)
next
  case False
  with assms have pos: "0 < (of_nat n :: rat) / of_nat l" by simp
  then have "\<not> (of_nat n :: rat) / of_nat l < 0" by simp
  with assms False show ?thesis
    by (simp add: ceil_div_def safe_integer_of_nat)
qed

lemma get_users_Sees:
  assumes "matching env (build_query (q_search q)) (users s1) = Inr m1"
    and "matching env (build_query (q_search q)) (users s2) = Inr m2"
    and "skip_limit env (skip_argument env (or_default (q_page q) 1) (or_default (q_limit q) 10))
           (parseInt env (or_default (q_limit q) 10))
           (sort_desc createdAt (map select_no_password m2)) = Inr us"
  shows "get_users env (Sees s1) (Sees s2) q =
           Response 200 (UsersPage us (length m1) (parseInt env (or_default (q_page q) 1))
             (ceil_div env (length m1) (ToNumber env (or_default (q_limit q) 10))))"
  using assms by (simp add: get_users_def Let_def User_countDocuments_def User_find_page_def)

lemma get_users_200D:
  assumes "get_users env counted found q = Response 200 (UsersPage us t p tp)"
  shows "\<exists>s1 s2 m1 m2. counted = Sees s1 \<and> found = Sees s2 \<and>
           matching env (build_query (q_search q)) (users s1) = Inr m1 \<and>
           matching env (build_query (q_search q)) (users s2) = Inr m2 \<and>
           skip_limit env (skip_argument env (or_default (q_page q) 1) (or_default (q_limit q) 10))
             (parseInt env (or_default (q_limit q) 10))
             (sort_desc createdAt (map select_no_password m2)) = Inr us \<and>
           t = length m1 \<and> p = parseInt env (or_default (q_page q) 1) \<and>
           tp = ceil_div env (length m1) (ToNumber env (or_default (q_limit q) 10))"
  using assms
  by (auto simp: get_users_def Let_def User_countDocuments_def User_find_page_def
      server_error_def split: call.splits sum.splits)

lemma given_number:
  assumes "p = Some (decimal n) \<or> p = None \<and> int n = d" and "int n \<le> MAX_SAFE_INTEGER"
  shows "ToNumber env (or_default p d) = Fin (of_nat n)"
    and "parseInt env (or_default p d) = Fin (of_nat n)"
  using assms decimal_number[of n env] by auto

lemma matching_SearchAny:
  "pat \<noteq> [] \<Longrightarrow> regex_i env pat = Some m \<Longrightarrow>
     matching env (build_query (Some pat)) us =
       Inr (filter (\<lambda>u. m (name u) \<or> m (email u) \<or> m (registration_no u)) us)"
  by (simp add: matching_def build_query_def)

lemma regex_i_literal:
  assumes "plain_text pat"
  shows "\<exists>m. regex_i env pat = Some m \<and> (\<forall>s. ascii_text s \<longrightarrow> m s = substring_ci pat s)"
proof -
  from assms have frag: "in_fragment pat"
    by (auto simp: in_fragment_def plain_text_def list_all_iff)
  from assms have "CHR ''.'' \<notin> set pat"
    by (auto simp: plain_text_def list_all_iff literal_char_def regex_special_def)
  then have "\<And>s. match_anywhere pat s = substring_ci pat s"
    by (simp add: match_anywhere_literal substring_ci_def)
  with frag show ?thesis by (simp add: regex_i_def)
qed

lemma matching_plain:
  assumes ne: "pat \<noteq> []" and lit: "plain_text pat"
    and ascii: "\<forall>u\<in>set us. ascii_text (name u) \<and> ascii_text (email u) \<and>
                  ascii_text (registration_no u)"
  shows "matching env (build_query (Some pat)) us =
           Inr (filter (\<lambda>u. substring_ci pat (name u) \<or> substring_ci pat (email u) \<or>
                           substring_ci pat (registration_no u)) us)"
proof -
  from regex_i_literal[OF lit, of env] obtain m where m: "regex_i env pat = Some m"
    and sub: "\<And>s. ascii_text s \<Longrightarrow> m s = substring_ci pat s"
    by blast
  have "filter (\<lambda>u. m (name u) \<or> m (email u) \<or> m (registration_no u)) us =
        filter (\<lambda>u. substring_ci pat (name u) \<or> substring_ci pat (email u) \<or>
                    substring_ci pat (registration_no u)) us"
    by (rule filter_cong) (use ascii sub in auto)
  with matching_SearchAny[OF ne m, of us] show ?thesis by simp
qed

lemma one_and_ten:
  "StringToNumber env ''1'' = Fin 1" "parseInt env (Text ''1'') = Fin 1"
  "StringToNumber env ''10'' = Fin 10" "parseInt env (Text ''10'') = Fin 10"
  by (simp_all add: StringToNumber_def unsigned_numeral_def is_digit_def digits_value_def
      signed_value_def MAX_SAFE_INTEGER_def)

lemma skip_argument_default:
  "skip_argument env (Text ''1'') limit = skip_argument env (Literal 1) limit"
  "skip_argument env page (Text ''10'') = skip_argument env page (Literal 10)"
  by (simp_all add: skip_argument_def one_and_ten)

lemma skip_of_first_page:
  "skip_argument env (Literal 1) limit =
     (let l = ToNumber env limit
      in if l = NaN \<or> is_infinite l then NaN else if negative l then NegZero else Fin 0)"
proof -
  have z: "js_minus_one env (ToNumber env (Literal 1)) = Fin 0"
    by (simp add: js_round_def safe_integer_def MAX_SAFE_INTEGER_def)
  show ?thesis
    unfolding skip_argument_def z
    by (cases "ToNumber env limit") (simp_all add: js_times_def Let_def)
qed

text \<open>
  The requests of the examples below get the same answer on every platform: each stays
  where the model fixes the conversions, the arithmetic, the pattern and the cursor.
\<close>

lemma sample_users_sorted:
  "sort_desc createdAt (map select_no_password (users sample_db)) =
     map select_no_password
       [member ''u4'' ''Dee'' ''d@x.com'' ''R4'' 4, member ''u3'' ''Cy'' ''c@x.com'' ''TEST123'' 3,
        member ''u2'' ''Bob'' ''test@x.com'' ''R2'' 2, member ''u1'' ''Test User'' ''a@x.com'' ''R1'' 1]"
  by code_simp

lemma zero_text: "StringToNumber env ''0'' = Fin 0" "parseInt env (Text ''0'') = Fin 0"
  by (simp_all add: StringToNumber_def unsigned_numeral_def is_digit_def digits_value_def
      signed_value_def MAX_SAFE_INTEGER_def)

lemma limit_zero_on_any_platform:
  "get_users env (Sees sample_db) (Sees sample_db)
       \<lparr>q_search = None, q_page = None, q_limit = Some ''0''\<rparr> =
     Response 200 (UsersPage
       (map select_no_password
          [member ''u4'' ''Dee'' ''d@x.com'' ''R4'' 4, member ''u3'' ''Cy'' ''c@x.com'' ''TEST123'' 3,
           member ''u2'' ''Bob'' ''test@x.com'' ''R2'' 2, member ''u1'' ''Test User'' ''a@x.com'' ''R1'' 1])
       4 (Fin 1) PosInf)"
proof -
  let ?q = "\<lparr>q_search = None, q_page = None, q_limit = Some ''0''\<rparr>"
  have m: "matching env (build_query (q_search ?q)) (users sample_db) = Inr (users sample_db)"
    by (simp add: build_query_def matching_def)
  have sk: "skip_argument env (or_default (q_page ?q) 1) (or_default (q_limit ?q) 10) = Fin 0"
    by (simp add: skip_of_first_page zero_text Let_def)
  have safe0: "safe_integer 0" by (simp add: safe_integer_def MAX_SAFE_INTEGER_def)
  have page: "skip_limit env (Fin 0) (Fin 0)
      (sort_desc createdAt (map select_no_password (users sample_db))) =
      Inr (sort_desc createdAt (map select_no_password (users sample_db)))"
    by (simp add: skip_limit_def safe0)
  have len: "length (users sample_db) = 4" by (simp add: sample_db_def)
  have tp: "ceil_div env 4 (Fin 0) = PosInf"
    by (simp add: ceil_div_def js_divide_def js_round_def safe_integer_def MAX_SAFE_INTEGER_def)
  from get_users_Sees[OF m m, of "sort_desc createdAt (map select_no_password (users sample_db))"]
    sk page
  show ?thesis
    by (simp add: zero_text len tp sample_users_sorted del: parseInt.simps(2))
qed

lemma dot_search_on_any_platform:
  "get_users env (Sees dotless_db) (Sees dotless_db)
       \<lparr>q_search = Some ''.'', q_page = None, q_limit = None\<rparr> =
     Response 200 (UsersPage [select_no_password (member ''u5'' ''Asha'' ''asha@genx'' ''R5'' 5)]
       1 (Fin 1) (Fin 1))"
proof -
  let ?q = "\<lparr>q_search = Some ''.'', q_page = None, q_limit = None\<rparr>"
  have frag: "in_fragment ''.''" by (simp add: in_fragment_def)
  have asc: "ascii_text ''Asha''" by (simp add: ascii_text_def)
  have hit: "match_anywhere ''.'' ''Asha''" by (simp add: item_matches_def)
  have m: "matching env (build_query (q_search ?q)) (users dotless_db) = Inr (users dotless_db)"
    using frag asc hit
    by (simp add: build_query_def matching_def regex_i_def dotless_db_def member_def)
  have sk: "skip_argument env (or_default (q_page ?q) 1) (or_default (q_limit ?q) 10) = Fin 0"
    by (simp add: skip_of_first_page Let_def)
  have s10: "safe_integer 10" "safe_integer 0"
    by (simp_all add: safe_integer_def MAX_SAFE_INTEGER_def)
  have page: "skip_limit env (Fin 0) (Fin 10)
      (sort_desc createdAt (map select_no_password (users dotless_db))) =
      Inr [select_no_password (member ''u5'' ''Asha'' ''asha@genx'' ''R5'' 5)]"
    by (simp add: skip_limit_def s10 dotless_db_def sort_desc_def)
  have tp: "ceil_div env (Suc 0) (Fin 10) = Fin 1"
    using ceil_div_nat[of 10 "Suc 0" env] by (simp add: MAX_SAFE_INTEGER_def ceiling_eq_iff)
  have len: "length (users dotless_db) = 1" by (simp add: dotless_db_def)
  from get_users_Sees[OF m m, of "[select_no_password (member ''u5'' ''Asha'' ''asha@genx'' ''R5'' 5)]"]
    sk page
  show ?thesis
    by (simp add: len tp)
qed

lemma abc_skip_on_any_platform:
  "skip_argument env (or_default None 1) (or_default (Some ''abc'') 10) = NaN"
  "parseInt env (Text ''abc'') = NaN"
  by (simp_all add: skip_of_first_page StringToNumber_def unsigned_numeral_def is_digit_def
      is_letter_def Let_def)

text \<open>
  Claim C4, amended. Let the page and the limit each be absent (then 1 and 10) or a decimal
  numeral, of value at least 1 and with a product of at most \<^verbatim>\<open>Number.MAX_SAFE_INTEGER\<close>,
  which is \<open>2^53 - 1\<close>; let both store queries resolve and the number of matching users be
  a safe integer. Then \<^verbatim>\<open>GET /users\<close> answers 200 with \<^verbatim>\<open>totalPages\<close> the ceiling of
  \<^verbatim>\<open>total / limit\<close>; the page is what follows the first \<^verbatim>\<open>(page - 1) * limit\<close> of the
  matching users in descending order of creation, at most \<^verbatim>\<open>limit\<close> of them; \<^verbatim>\<open>total\<close>
  is the number of all matching users, whatever the page and the limit; no returned user
  has a password. With 25 matching users, limit 10 and page 3, \<^verbatim>\<open>totalPages\<close> is 3 and
  the page is the items 21 to 25.
\<close>

theorem users_page_of_positive_page_and_limit:
  assumes page: "q_page q = Some (decimal pg) \<or> q_page q = None \<and> pg = 1"
    and limit: "q_limit q = Some (decimal lm) \<or> q_limit q = None \<and> lm = 10"
    and pg1: "1 \<le> pg" and lm1: "1 \<le> lm"
    and safe: "int (pg * lm) \<le> MAX_SAFE_INTEGER"
    and total: "int (length m1) \<le> MAX_SAFE_INTEGER"
    and m1: "matching env (build_query (q_search q)) (users s1) = Inr m1"
    and m2: "matching env (build_query (q_search q)) (users s2) = Inr m2"
    and ordered: "ordered = sort_desc createdAt (map select_no_password m2)"
    and us: "us = take lm (drop ((pg - 1) * lm) ordered)"
  shows "get_users env (Sees s1) (Sees s2) q =
           Response 200 (UsersPage us (length m1) (Fin (of_nat pg))
             (Fin (of_int \<lceil>(of_nat (length m1) :: rat) / of_nat lm\<rceil>))) \<and>
         length us \<le> lm \<and>
         sorted_wrt (\<lambda>a b. createdAt b \<le> createdAt a) us \<and>
         (\<forall>u\<in>set us. password u = None) \<and>
         (length m1 = 25 \<and> length m2 = 25 \<and> lm = 10 \<and> pg = 3 \<longrightarrow>
            \<lceil>(of_nat (length m1) :: rat) / of_nat lm\<rceil> = 3 \<and>
            us = map (\<lambda>j. ordered ! j) [20..<25])"
proof (intro conjI impI ballI)
  have pgs: "int pg \<le> MAX_SAFE_INTEGER"
  proof -
    have "pg \<le> pg * lm" using lm1 by simp
    with safe show ?thesis by linarith
  qed
  have lms: "int lm \<le> MAX_SAFE_INTEGER"
  proof -
    have "lm \<le> pg * lm" using pg1 by simp
    with safe show ?thesis by linarith
  qed
  have sks: "int ((pg - 1) * lm) \<le> MAX_SAFE_INTEGER"
  proof -
    have "(pg - 1) * lm \<le> pg * lm" by simp
    with safe show ?thesis by linarith
  qed
  have pN: "ToNumber env (or_default (q_page q) 1) = Fin (of_nat pg)"
    and pI: "parseInt env (or_default (q_page q) 1) = Fin (of_nat pg)"
    using given_number[of "q_page q" pg 1 env] page pgs by auto
  have lN: "ToNumber env (or_default (q_limit q) 10) = Fin (of_nat lm)"
    and lI: "parseInt env (or_default (q_limit q) 10) = Fin (of_nat lm)"
    using given_number[of "q_limit q" lm 10 env] limit lms by auto
  have sk: "skip_argument env (or_default (q_page q) 1) (or_default (q_limit q) 10) =
      Fin (of_nat ((pg - 1) * lm))"
    unfolding skip_argument_def pN lN
    using js_minus_one_nat[OF pg1 pgs] js_times_nat[OF sks] by simp
  have "skip_limit env (Fin (of_nat ((pg - 1) * lm))) (Fin (of_nat lm)) ordered = Inr us"
    using skip_limit_nat[OF sks lms] lm1 us by simp
  then show "get_users env (Sees s1) (Sees s2) q =
           Response 200 (UsersPage us (length m1) (Fin (of_nat pg))
             (Fin (of_int \<lceil>(of_nat (length m1) :: rat) / of_nat lm\<rceil>)))"
    using get_users_Sees[OF m1 m2, of us] sk lI pI lN ordered ceil_div_nat[OF lm1 lms total]
    by simp
next
  show "length us \<le> lm" using us by simp
next
  have "sorted_wrt (\<lambda>a b. createdAt b \<le> createdAt a) ordered"
    unfolding ordered by (rule sorted_sort_desc)
  then show "sorted_wrt (\<lambda>a b. createdAt b \<le> createdAt a) us"
    unfolding us by (rule sorted_wrt_take_drop)
next
  fix u assume "u \<in> set us"
  then have "u \<in> set ordered" unfolding us by (meson in_set_dropD in_set_takeD)
  then show "password u = None"
    unfolding ordered by (auto simp: set_sort_desc select_no_password_def)
next
  assume ex: "length m1 = 25 \<and> length m2 = 25 \<and> lm = 10 \<and> pg = 3"
  then show "\<lceil>(of_nat (length m1) :: rat) / of_nat lm\<rceil> = 3"
    by (simp add: ceiling_eq_iff)
next
  assume ex: "length m1 = 25 \<and> length m2 = 25 \<and> lm = 10 \<and> pg = 3"
  then have len: "length ordered = 25"
    unfolding ordered by (simp add: length_sort_desc)
  from ex have "us = take 10 (drop 20 ordered)" unfolding us by simp
  also have "\<dots> = drop 20 ordered" using len by simp
  also have "\<dots> = map (\<lambda>j. ordered ! j) [20..<25]" using len by (simp add: drop_as_nth)
  finally show "us = map (\<lambda>j. ordered ! j) [20..<25]" .
qed

theorem users_page_of_positive_page_and_limit_witness:
  "(1::nat) \<le> 3 \<and> (1::nat) \<le> 10 \<and> int (3 * 10) \<le> MAX_SAFE_INTEGER \<and>
   length (users roster) = 25 \<and> decimal 3 = ''3'' \<and> decimal 10 = ''10'' \<and>
   get_users bare_platform (Sees roster) (Sees roster)
       \<lparr>q_search = None, q_page = Some ''3'', q_limit = Some ''10''\<rparr> =
     Response 200 (UsersPage
       (map (\<lambda>k. select_no_password (member (replicate (Suc k) (CHR ''u'')) ''N'' ''e'' ''r'' (int k)))
          [4, 3, 2, 1, 0])
       25 (Fin 3) (Fin 3))"
proof -
  let ?q = "\<lparr>q_search = None, q_page = Some ''3'', q_limit = Some ''10''\<rparr>"
  have d3: "decimal 3 = ''3''" and d10: "decimal 10 = ''10''"
    by code_simp+
  have pg: "q_page ?q = Some (decimal 3) \<or> q_page ?q = None \<and> (3::nat) = 1"
    and lm: "q_limit ?q = Some (decimal 10) \<or> q_limit ?q = None \<and> (10::nat) = 10"
    by (simp_all add: d3 d10)
  have safe: "int (3 * 10) \<le> MAX_SAFE_INTEGER"
    by (simp add: MAX_SAFE_INTEGER_def)
  have m: "matching bare_platform (build_query (q_search ?q)) (users roster) = Inr (users roster)"
    by (simp add: build_query_def matching_def)
  have len: "length (users roster) = 25"
    by (simp add: roster_def)
  have total: "int (length (users roster)) \<le> MAX_SAFE_INTEGER"
    by (simp add: len MAX_SAFE_INTEGER_def)
  have page: "take 10 (drop ((3 - 1) * 10)
                (sort_desc createdAt (map select_no_password (users roster)))) =
      map (\<lambda>k. select_no_password (member (replicate (Suc k) (CHR ''u'')) ''N'' ''e'' ''r'' (int k)))
          [4, 3, 2, 1, 0]"
    by code_simp
  from users_page_of_positive_page_and_limit[OF pg lm _ _ safe total m m refl refl]
  have "get_users bare_platform (Sees roster) (Sees roster) ?q =
      Response 200 (UsersPage
        (take 10 (drop ((3 - 1) * 10)
           (sort_desc createdAt (map select_no_password (users roster)))))
        (length (users roster)) (Fin (of_nat 3))
        (Fin (of_int \<lceil>(of_nat (length (users roster)) :: rat) / of_nat 10\<rceil>)))"
    by simp
  moreover have "\<lceil>(of_nat (length (users roster)) :: rat) / of_nat 10\<rceil> = 3"
    unfolding len by (simp add: ceiling_eq_iff)
  ultimately show ?thesis
    unfolding page len using safe d3 d10 by simp
qed

text \<open>
  The claim as stated, for every request, fails for the limit \<^verbatim>\<open>0\<close>: the store takes it
  as no limit, so the page holds all four users of the example store, and \<^verbatim>\<open>totalPages\<close>
  is \<^verbatim>\<open>Infinity\<close>.
\<close>

theorem users_page_limit_zero_counterexample:
  "get_users bare_platform (Sees sample_db) (Sees sample_db)
       \<lparr>q_search = None, q_page = None, q_limit = Some ''0''\<rparr> =
     Response 200 (UsersPage
       (map select_no_password
          [member ''u4'' ''Dee'' ''d@x.com'' ''R4'' 4, member ''u3'' ''Cy'' ''c@x.com'' ''TEST123'' 3,
           member ''u2'' ''Bob'' ''test@x.com'' ''R2'' 2, member ''u1'' ''Test User'' ''a@x.com'' ''R1'' 1])
       4 (Fin 1) PosInf) \<and>
   parseInt bare_platform (Text ''0'') = Fin 0 \<and>
   \<not> length (map select_no_password
          [member ''u4'' ''Dee'' ''d@x.com'' ''R4'' 4, member ''u3'' ''Cy'' ''c@x.com'' ''TEST123'' 3,
           member ''u2'' ''Bob'' ''test@x.com'' ''R2'' 2, member ''u1'' ''Test User'' ''a@x.com'' ''R1'' 1])
        \<le> 0"
  by code_simp

text \<open>
  Claim C5, amended. With a non-empty search the query selects a user exactly when the
  search text, compiled as a regular expression with option \<^verbatim>\<open>i\<close>, matches the name,
  the email or the registration number: one field is enough. When the search text is
  plain (ASCII characters other than NUL and other than the characters special in a
  regular expression) and the three fields of the users are ASCII texts, that is the
  case-insensitive substring match of the specification; the total of the response is the
  number of the users it selects, and the page of a request without page and limit is the
  ten newest of them. A search text that does not compile makes the query reject, and the
  answer is 500.
\<close>

theorem search_matches_any_field:
  assumes ne: "pat \<noteq> []"
  shows "(\<forall>m. regex_i env pat = Some m \<longrightarrow>
            matching env (build_query (Some pat)) us =
              Inr (filter (\<lambda>u. m (name u) \<or> m (email u) \<or> m (registration_no u)) us)) \<and>
         (plain_text pat \<and>
          (\<forall>u\<in>set us. ascii_text (name u) \<and> ascii_text (email u) \<and>
             ascii_text (registration_no u)) \<longrightarrow>
            matching env (build_query (Some pat)) us =
              Inr (filter (\<lambda>u. substring_ci pat (name u) \<or> substring_ci pat (email u) \<or>
                              substring_ci pat (registration_no u)) us)) \<and>
         (plain_text pat \<and> q_search q = Some pat \<and>
          (\<forall>u\<in>set (users s1) \<union> set (users s2). ascii_text (name u) \<and> ascii_text (email u) \<and>
             ascii_text (registration_no u)) \<and>
          get_users env (Sees s1) (Sees s2) q = Response 200 (UsersPage rs t p tp) \<longrightarrow>
            t = length (filter (\<lambda>u. substring_ci pat (name u) \<or> substring_ci pat (email u) \<or>
                              substring_ci pat (registration_no u)) (users s1)) \<and>
            (q_page q = None \<and> q_limit q = None \<longrightarrow>
               rs = take 10 (sort_desc createdAt (map select_no_password
                      (filter (\<lambda>u. substring_ci pat (name u) \<or> substring_ci pat (email u) \<or>
                              substring_ci pat (registration_no u)) (users s2)))))) \<and>
         (regex_i env pat = None \<and> q_search q = Some pat \<longrightarrow>
            get_users env (Sees s1) found q = Response 500 (Message ''Server error''))"
proof (intro conjI allI impI)
  fix m assume "regex_i env pat = Some m"
  with ne show "matching env (build_query (Some pat)) us =
      Inr (filter (\<lambda>u. m (name u) \<or> m (email u) \<or> m (registration_no u)) us)"
    by (rule matching_SearchAny)
next
  assume "plain_text pat \<and>
          (\<forall>u\<in>set us. ascii_text (name u) \<and> ascii_text (email u) \<and>
             ascii_text (registration_no u))"
  then show "matching env (build_query (Some pat)) us =
      Inr (filter (\<lambda>u. substring_ci pat (name u) \<or> substring_ci pat (email u) \<or>
                      substring_ci pat (registration_no u)) us)"
    using matching_plain[OF ne] by blast
next
  let ?P = "\<lambda>u. substring_ci pat (name u) \<or> substring_ci pat (email u) \<or>
                substring_ci pat (registration_no u)"
  assume a: "plain_text pat \<and> q_search q = Some pat \<and>
          (\<forall>u\<in>set (users s1) \<union> set (users s2). ascii_text (name u) \<and> ascii_text (email u) \<and>
             ascii_text (registration_no u)) \<and>
          get_users env (Sees s1) (Sees s2) q = Response 200 (UsersPage rs t p tp)"
  then have lit: "plain_text pat" and q: "q_search q = Some pat"
    and ok: "get_users env (Sees s1) (Sees s2) q = Response 200 (UsersPage rs t p tp)"
    by simp_all
  from a have m1: "matching env (build_query (Some pat)) (users s1) = Inr (filter ?P (users s1))"
    by (intro matching_plain[OF ne lit]) auto
  from get_users_200D[OF ok] q m1 show "t = length (filter ?P (users s1))"
    by auto
next
  let ?P = "\<lambda>u. substring_ci pat (name u) \<or> substring_ci pat (email u) \<or>
                substring_ci pat (registration_no u)"
  assume a: "plain_text pat \<and> q_search q = Some pat \<and>
          (\<forall>u\<in>set (users s1) \<union> set (users s2). ascii_text (name u) \<and> ascii_text (email u) \<and>
             ascii_text (registration_no u)) \<and>
          get_users env (Sees s1) (Sees s2) q = Response 200 (UsersPage rs t p tp)"
    and d: "q_page q = None \<and> q_limit q = None"
  then have lit: "plain_text pat" and q: "q_search q = Some pat"
    and ok: "get_users env (Sees s1) (Sees s2) q = Response 200 (UsersPage rs t p tp)"
    by simp_all
  from a have m2: "matching env (build_query (Some pat)) (users s2) = Inr (filter ?P (users s2))"
    by (intro matching_plain[OF ne lit]) auto
  have pgN: "q_page q = Some (decimal 1) \<or> q_page q = None \<and> int 1 = 1"
    and lmN: "q_limit q = Some (decimal 10) \<or> q_limit q = None \<and> int 10 = 10"
    using d by simp_all
  have s1: "int 1 \<le> MAX_SAFE_INTEGER" and s10: "int 10 \<le> MAX_SAFE_INTEGER"
    and s0: "int ((1 - 1) * 10) \<le> MAX_SAFE_INTEGER"
    by (simp_all add: MAX_SAFE_INTEGER_def)
  have sk: "skip_argument env (or_default (q_page q) 1) (or_default (q_limit q) 10) = Fin (of_nat 0)"
    unfolding skip_argument_def given_number(1)[OF pgN s1] given_number(1)[OF lmN s10]
    using js_minus_one_nat[OF _ s1, of env] js_times_nat[of 0 10 env] s0 by simp
  have "\<And>xs. skip_limit env (Fin (of_nat 0)) (Fin (of_nat 10)) xs = Inr (take 10 xs)"
    using skip_limit_nat[of 0 10 env] s10 by (simp add: MAX_SAFE_INTEGER_def)
  with get_users_200D[OF ok] q m2 sk given_number(2)[OF lmN s10, of env]
  show "rs = take 10 (sort_desc createdAt (map select_no_password (filter ?P (users s2))))"
    by auto
next
  assume "regex_i env pat = None \<and> q_search q = Some pat"
  with ne show "get_users env (Sees s1) found q = Response 500 (Message ''Server error'')"
    by (simp add: get_users_def Let_def User_countDocuments_def matching_def build_query_def
        server_error_def)
qed

theorem search_matches_any_field_witness:
  "''test'' \<noteq> [] \<and> plain_text ''test'' \<and>
   ascii_text ''Cy'' \<and> ascii_text ''c@x.com'' \<and> ascii_text ''TEST123'' \<and>
   matching bare_platform (build_query (Some ''test'')) (users sample_db) =
     Inr [member ''u1'' ''Test User'' ''a@x.com'' ''R1'' 1,
          member ''u2'' ''Bob'' ''test@x.com'' ''R2'' 2,
          member ''u3'' ''Cy'' ''c@x.com'' ''TEST123'' 3] \<and>
   \<not> substring_ci ''test'' ''Cy'' \<and> \<not> substring_ci ''test'' ''c@x.com'' \<and>
   substring_ci ''test'' ''TEST123'' \<and>
   get_users bare_platform (Sees sample_db) (Sees sample_db)
       \<lparr>q_search = Some ''test'', q_page = None, q_limit = None\<rparr> =
     Response 200 (UsersPage
       (map select_no_password
          [member ''u3'' ''Cy'' ''c@x.com'' ''TEST123'' 3,
           member ''u2'' ''Bob'' ''test@x.com'' ''R2'' 2,
           member ''u1'' ''Test User'' ''a@x.com'' ''R1'' 1])
       3 (Fin 1) (Fin 1)) \<and>
   regex_i bare_platform ''('' = None \<and>
   get_users bare_platform (Sees sample_db) (Sees sample_db)
       \<lparr>q_search = Some ''('', q_page = None, q_limit = None\<rparr> =
     Response 500 (Message ''Server error'')"
proof -
  let ?q = "\<lparr>q_search = Some ''test'', q_page = None, q_limit = None\<rparr>"
  let ?q' = "\<lparr>q_search = Some ''('', q_page = None, q_limit = None\<rparr>"
  have bad: "regex_i bare_platform ''('' = None"
    by (simp add: regex_i_def in_fragment_def literal_char_def regex_special_def
        bare_platform_def)
  have ne': "''('' \<noteq> []" by simp
  from search_matches_any_field[OF ne', of bare_platform _ ?q' sample_db _ _ _ _ _ "Sees sample_db"]
    bad
  have rejected: "get_users bare_platform (Sees sample_db) (Sees sample_db) ?q' =
      Response 500 (Message ''Server error'')"
    by simp
  let ?rs = "map select_no_password
          [member ''u3'' ''Cy'' ''c@x.com'' ''TEST123'' 3,
           member ''u2'' ''Bob'' ''test@x.com'' ''R2'' 2,
           member ''u1'' ''Test User'' ''a@x.com'' ''R1'' 1]"
  let ?P = "\<lambda>u. substring_ci ''test'' (name u) \<or> substring_ci ''test'' (email u) \<or>
                substring_ci ''test'' (registration_no u)"
  have ne: "''test'' \<noteq> []" by simp
  have lit: "plain_text ''test''"
    by (simp add: plain_text_def literal_char_def regex_special_def)
  have ascii: "\<forall>u\<in>set (users sample_db). ascii_text (name u) \<and> ascii_text (email u) \<and>
                 ascii_text (registration_no u)"
    by (simp add: sample_db_def member_def ascii_text_def)
  have ascii2: "\<forall>u\<in>set (users sample_db) \<union> set (users sample_db). ascii_text (name u) \<and>
                 ascii_text (email u) \<and> ascii_text (registration_no u)"
    using ascii by simp
  have a3: "ascii_text ''Cy''" "ascii_text ''c@x.com''" "ascii_text ''TEST123''"
    by (simp_all add: ascii_text_def)
  have q: "q_search ?q = Some ''test''" by simp
  have ok: "get_users bare_platform (Sees sample_db) (Sees sample_db) ?q =
      Response 200 (UsersPage ?rs 3 (Fin 1) (Fin 1))"
    by code_simp
  have sub: "\<not> substring_ci ''test'' ''Cy''" "\<not> substring_ci ''test'' ''c@x.com''"
    "substring_ci ''test'' ''TEST123''"
    by code_simp+
  have flt: "filter ?P (users sample_db) =
      [member ''u1'' ''Test User'' ''a@x.com'' ''R1'' 1,
       member ''u2'' ''Bob'' ''test@x.com'' ''R2'' 2,
       member ''u3'' ''Cy'' ''c@x.com'' ''TEST123'' 3]"
    by code_simp
  note inst = search_matches_any_field[OF ne, of bare_platform "users sample_db" ?q
      sample_db sample_db ?rs 3 "Fin 1" "Fin 1"]
  from inst lit ascii
  have "matching bare_platform (build_query (Some ''test'')) (users sample_db) =
      Inr (filter ?P (users sample_db))"
    by blast
  with flt ne lit a3 sub ok bad rejected show ?thesis by simp
qed

text \<open>
  The claim as stated, for every search text, fails for the search \<^verbatim>\<open>.\<close>: as a
  regular expression it matches any character, so the user of the second example store is
  selected, while no searched field of that user contains a dot.
\<close>

theorem search_dot_counterexample:
  "get_users bare_platform (Sees dotless_db) (Sees dotless_db)
       \<lparr>q_search = Some ''.'', q_page = None, q_limit = None\<rparr> =
     Response 200 (UsersPage [select_no_password (member ''u5'' ''Asha'' ''asha@genx'' ''R5'' 5)]
       1 (Fin 1) (Fin 1)) \<and>
   \<not> substring_ci ''.'' ''Asha'' \<and> \<not> substring_ci ''.'' ''asha@genx'' \<and>
   \<not> substring_ci ''.'' ''R5''"
  by code_simp

text \<open>
  Claim C9, amended. Without a \<^verbatim>\<open>page\<close> parameter \<^verbatim>\<open>GET /users\<close> answers as for the
  page \<^verbatim>\<open>1\<close>, and without a \<^verbatim>\<open>limit\<close> parameter as for the limit \<^verbatim>\<open>10\<close>. The
  \<^verbatim>\<open>page\<close> of the response is the \<^verbatim>\<open>parseInt\<close> of the page parameter in effect: 1 without
  the parameter, \<open>n\<close> for the decimal numeral of a safe integer \<open>n\<close>; \<^verbatim>\<open>totalPages\<close>
  follows the limit in effect in the same way. Without a \<^verbatim>\<open>page\<close> parameter the skip is
  a zero whenever the limit in effect converts to a finite number (0 when it is absent or
  the decimal numeral of a safe integer), and NaN otherwise.
\<close>

theorem users_query_defaults:
  "get_users env counted found (q\<lparr>q_page := None\<rparr>) =
     get_users env counted found (q\<lparr>q_page := Some ''1''\<rparr>) \<and>
   get_users env counted found (q\<lparr>q_limit := None\<rparr>) =
     get_users env counted found (q\<lparr>q_limit := Some ''10''\<rparr>) \<and>
   (get_users env counted found q = Response 200 (UsersPage us t p tp) \<longrightarrow>
      (q_page q = None \<longrightarrow> p = Fin 1) \<and>
      (\<forall>n. q_page q = Some (decimal n) \<and> int n \<le> MAX_SAFE_INTEGER \<longrightarrow> p = Fin (of_nat n)) \<and>
      (\<forall>s. q_page q = Some s \<longrightarrow> p = parseInt env (Text s)) \<and>
      (q_limit q = None \<and> int t \<le> MAX_SAFE_INTEGER \<longrightarrow>
         tp = Fin (of_int \<lceil>(of_nat t :: rat) / 10\<rceil>)) \<and>
      (\<forall>n. q_limit q = Some (decimal n) \<and> 1 \<le> n \<and> int n \<le> MAX_SAFE_INTEGER \<and>
            int t \<le> MAX_SAFE_INTEGER \<longrightarrow>
         tp = Fin (of_int \<lceil>(of_nat t :: rat) / of_nat n\<rceil>))) \<and>
   (q_page q = None \<longrightarrow>
      skip_argument env (or_default (q_page q) 1) (or_default (q_limit q) 10) =
        (let l = ToNumber env (or_default (q_limit q) 10)
         in if l = NaN \<or> is_infinite l then NaN else if negative l then NegZero else Fin 0)) \<and>
   (q_page q = None \<and>
    (q_limit q = None \<or> (\<exists>n. q_limit q = Some (decimal n) \<and> int n \<le> MAX_SAFE_INTEGER)) \<longrightarrow>
      skip_argument env (or_default (q_page q) 1) (or_default (q_limit q) 10) = Fin 0)"
proof (intro conjI impI allI)
  show "get_users env counted found (q\<lparr>q_page := None\<rparr>) =
     get_users env counted found (q\<lparr>q_page := Some ''1''\<rparr>)"
    by (simp add: get_users_def Let_def skip_argument_default one_and_ten
        del: parseInt.simps(2) split: call.splits sum.splits)
next
  show "get_users env counted found (q\<lparr>q_limit := None\<rparr>) =
     get_users env counted found (q\<lparr>q_limit := Some ''10''\<rparr>)"
    by (simp add: get_users_def Let_def skip_argument_default one_and_ten
        del: parseInt.simps(2) split: call.splits sum.splits)
next
  assume ok: "get_users env counted found q = Response 200 (UsersPage us t p tp)"
    and "q_page q = None"
  with get_users_200D[OF ok] show "p = Fin 1" by auto
next
  fix n
  assume ok: "get_users env counted found q = Response 200 (UsersPage us t p tp)"
    and "q_page q = Some (decimal n) \<and> int n \<le> MAX_SAFE_INTEGER"
  with get_users_200D[OF ok] decimal_number(2)[of n env] show "p = Fin (of_nat n)" by auto
next
  fix s
  assume ok: "get_users env counted found q = Response 200 (UsersPage us t p tp)"
    and "q_page q = Some s"
  with get_users_200D[OF ok] show "p = parseInt env (Text s)" by auto
next
  assume ok: "get_users env counted found q = Response 200 (UsersPage us t p tp)"
    and a: "q_limit q = None \<and> int t \<le> MAX_SAFE_INTEGER"
  have "ceil_div env t (Fin (of_nat 10)) = Fin (of_int \<lceil>(of_nat t :: rat) / of_nat 10\<rceil>)"
    using a by (intro ceil_div_nat) (simp_all add: MAX_SAFE_INTEGER_def)
  with get_users_200D[OF ok] a show "tp = Fin (of_int \<lceil>(of_nat t :: rat) / 10\<rceil>)" by auto
next
  fix n
  assume ok: "get_users env counted found q = Response 200 (UsersPage us t p tp)"
    and a: "q_limit q = Some (decimal n) \<and> 1 \<le> n \<and> int n \<le> MAX_SAFE_INTEGER \<and>
            int t \<le> MAX_SAFE_INTEGER"
  have "ceil_div env t (Fin (of_nat n)) = Fin (of_int \<lceil>(of_nat t :: rat) / of_nat n\<rceil>)"
    using a by (intro ceil_div_nat) simp_all
  with get_users_200D[OF ok] a decimal_number(1)[of n env]
  show "tp = Fin (of_int \<lceil>(of_nat t :: rat) / of_nat n\<rceil>)" by auto
next
  assume "q_page q = None"
  then show "skip_argument env (or_default (q_page q) 1) (or_default (q_limit q) 10) =
        (let l = ToNumber env (or_default (q_limit q) 10)
         in if l = NaN \<or> is_infinite l then NaN else if negative l then NegZero else Fin 0)"
    by (simp add: skip_of_first_page)
next
  assume a: "q_page q = None \<and>
    (q_limit q = None \<or> (\<exists>n. q_limit q = Some (decimal n) \<and> int n \<le> MAX_SAFE_INTEGER))"
  then have "\<exists>n. ToNumber env (or_default (q_limit q) 10) = Fin (of_nat n)"
  proof (elim conjE disjE exE)
    assume "q_limit q = None"
    then have "ToNumber env (or_default (q_limit q) 10) = Fin (of_nat 10)" by simp
    then show ?thesis by blast
  next
    fix n assume "q_limit q = Some (decimal n)" "int n \<le> MAX_SAFE_INTEGER"
    then have "ToNumber env (or_default (q_limit q) 10) = Fin (of_nat n)"
      using decimal_number(1)[of n env] by simp
    then show ?thesis by blast
  qed
  with a show "skip_argument env (or_default (q_page q) 1) (or_default (q_limit q) 10) = Fin 0"
    by (auto simp: skip_of_first_page Let_def)
qed

theorem users_query_defaults_witness:
  "decimal 2 = ''2'' \<and> decimal 1 = ''1'' \<and>
   get_users bare_platform (Sees sample_db) (Sees sample_db)
       \<lparr>q_search = None, q_page = None, q_limit = None\<rparr> =
     Response 200 (UsersPage
       (map select_no_password
          [member ''u4'' ''Dee'' ''d@x.com'' ''R4'' 4, member ''u3'' ''Cy'' ''c@x.com'' ''TEST123'' 3,
           member ''u2'' ''Bob'' ''test@x.com'' ''R2'' 2, member ''u1'' ''Test User'' ''a@x.com'' ''R1'' 1])
       4 (Fin 1) (Fin 1)) \<and>
   get_users bare_platform (Sees sample_db) (Sees sample_db)
       \<lparr>q_search = None, q_page = Some ''2'', q_limit = Some ''1''\<rparr> =
     Response 200 (UsersPage
       [select_no_password (member ''u3'' ''Cy'' ''c@x.com'' ''TEST123'' 3)] 4 (Fin 2) (Fin 4)) \<and>
   skip_argument bare_platform (or_default None 1) (or_default None 10) = Fin 0"
proof -
  let ?q0 = "\<lparr>q_search = None, q_page = None, q_limit = None\<rparr>"
  let ?q1 = "\<lparr>q_search = None, q_page = Some ''2'', q_limit = Some ''1''\<rparr>"
  let ?us0 = "map select_no_password
          [member ''u4'' ''Dee'' ''d@x.com'' ''R4'' 4, member ''u3'' ''Cy'' ''c@x.com'' ''TEST123'' 3,
           member ''u2'' ''Bob'' ''test@x.com'' ''R2'' 2, member ''u1'' ''Test User'' ''a@x.com'' ''R1'' 1]"
  let ?us1 = "[select_no_password (member ''u3'' ''Cy'' ''c@x.com'' ''TEST123'' 3)]"
  have d: "decimal 2 = ''2''" "decimal 1 = ''1''" by code_simp+
  have ok0: "get_users bare_platform (Sees sample_db) (Sees sample_db) ?q0 =
      Response 200 (UsersPage ?us0 4 (Fin 1) (Fin 1))"
    by code_simp
  have ok1: "get_users bare_platform (Sees sample_db) (Sees sample_db) ?q1 =
      Response 200 (UsersPage ?us1 4 (Fin 2) (Fin 4))"
    by code_simp
  have sk: "skip_argument bare_platform (or_default None 1) (or_default None 10) = Fin 0"
    by code_simp
  from users_query_defaults[of bare_platform "Sees sample_db" "Sees sample_db" ?q0 ?us0 4 "Fin 1" "Fin 1"]
    users_query_defaults[of bare_platform "Sees sample_db" "Sees sample_db" ?q1 ?us1 4 "Fin 2" "Fin 4"]
    ok0 ok1 sk d
  show ?thesis by simp
qed

text \<open>
  The claim as stated, for every request without a \<^verbatim>\<open>page\<close> parameter, fails for the
  limit \<^verbatim>\<open>abc\<close>: it converts to NaN, and so does the skip \<^verbatim>\<open>(1 - 1) * limit\<close>.
\<close>

theorem users_skip_not_zero_counterexample:
  "q_page \<lparr>q_search = None, q_page = None, q_limit = Some ''abc''\<rparr> = None \<and>
   skip_argument bare_platform
     (or_default (q_page \<lparr>q_search = None, q_page = None, q_limit = Some ''abc''\<rparr>) 1)
     (or_default (q_limit \<lparr>q_search = None, q_page = None, q_limit = Some ''abc''\<rparr>) 10) = NaN \<and>
   NaN \<noteq> Fin 0 \<and>
   parseInt bare_platform (Text ''abc'') = NaN"
  by code_simp

end
